theory Spec2Isabelle
  imports
    Main
    "HOL-Library.AList"
    "HOL-Library.Char_ord"
    "HOL-Library.List_Lexorder"
    "HOL-Library.Multiset"
begin

section \<open>Rows and values\<close>

text \<open>
  A row is a Python \<^verbatim>\<open>dict\<close> from column names to values. A \<^verbatim>\<open>dict\<close> iterates in
  insertion order and the row merge of the joiners depends on that order, so a row is an
  association list in insertion order; a well-formed row has pairwise distinct column
  names. \<^verbatim>\<open>row[c] = v\<close> is \<^const>\<open>AList.update\<close> (an existing column keeps its place, a
  new one goes last), \<^verbatim>\<open>row[c]\<close> is \<^const>\<open>map_of\<close> (raising \<open>KeyError\<close> on
  \<open>None\<close>), \<^verbatim>\<open>dict()\<close> is \<open>[]\<close> and \<^verbatim>\<open>row.copy()\<close> is the list itself.

  The values of the model are integers and strings; a string is a list of code points
  below 256. Floats, dates and coordinate pairs are outside the value model: the mappers
  that compute them take their arithmetic as a parameter.
\<close>

datatype val = IntV int | StrV string

datatype error =
    KeyError string
  | TypeError
  | AttributeError
  | ValueError
  | IndexError
  | NameError

type_synonym row = "(string \<times> val) list"

definition wf_row :: "row \<Rightarrow> bool" where
  "wf_row r = distinct (map fst r)"

definition column_names :: "row \<Rightarrow> string set" where
  "column_names r = fst ` set r"

section \<open>Strings\<close>

text \<open>
  The string operations the mappers call are Python's own. \<^verbatim>\<open>string.punctuation\<close> is
  the 32 ASCII characters with codes 33-47, 58-64, 91-96 and 123-126. Below code point 256,
  \<^verbatim>\<open>str.lower\<close> moves \<open>A\<close>-\<open>Z\<close> and the codes 192-222 other than 215 up by 32, and the
  characters that \<^verbatim>\<open>str.split()\<close> takes for whitespace are 9-13, 28-32, 133 and 160.
\<close>

definition is_punctuation :: "char \<Rightarrow> bool" where
  "is_punctuation c =
     (let n = (of_char c :: nat)
      in (33 \<le> n \<and> n \<le> 47) \<or> (58 \<le> n \<and> n \<le> 64) \<or> (91 \<le> n \<and> n \<le> 96)
         \<or> (123 \<le> n \<and> n \<le> 126))"

definition is_space :: "char \<Rightarrow> bool" where
  "is_space c =
     (let n = (of_char c :: nat)
      in (9 \<le> n \<and> n \<le> 13) \<or> (28 \<le> n \<and> n \<le> 32) \<or> n = 133 \<or> n = 160)"

definition lower_char :: "char \<Rightarrow> char" where
  "lower_char c =
     (let n = (of_char c :: nat)
      in if (65 \<le> n \<and> n \<le> 90) \<or> (192 \<le> n \<and> n \<le> 222 \<and> n \<noteq> 215)
         then char_of (n + 32) else c)"

text \<open>\<^verbatim>\<open>s.translate(str.maketrans("", "", string.punctuation))\<close> deletes the punctuation.\<close>

definition strip_punctuation :: "string \<Rightarrow> string" where
  "strip_punctuation s = filter (\<lambda>c. \<not> is_punctuation c) s"

definition lower :: "string \<Rightarrow> string" where
  "lower s = map lower_char s"

text \<open>
  \<^verbatim>\<open>s.split(None)\<close>: the tokens are the runs of characters between whitespace, and an
  empty run is no token. \<open>tok\<close> is the token being read.
\<close>

fun split_whitespace :: "string \<Rightarrow> string \<Rightarrow> string list" where
  "split_whitespace tok [] = (if tok = [] then [] else [tok])"
| "split_whitespace tok (c # cs) =
     (if is_space c
      then (if tok = [] then split_whitespace [] cs else tok # split_whitespace [] cs)
      else split_whitespace (tok @ [c]) cs)"

text \<open>
  \<^verbatim>\<open>s.split(sep)\<close> with a separator: the string is cut at every occurrence of \<open>sep\<close>
  found from the left, empty tokens are kept, and an empty separator is a \<open>ValueError\<close>.
\<close>

function split_separator :: "string \<Rightarrow> string \<Rightarrow> string \<Rightarrow> string list" where
  "split_separator sep tok [] = [tok]"
| "split_separator sep tok (c # cs) =
     (if sep \<noteq> [] \<and> take (length sep) (c # cs) = sep
      then tok # split_separator sep [] (drop (length sep) (c # cs))
      else split_separator sep (tok @ [c]) cs)"
  by pat_completeness auto
termination
  by (relation "measure (\<lambda>(sep, tok, s). length s)") auto

definition split :: "string option \<Rightarrow> string \<Rightarrow> error + string list" where
  "split separator s =
     (case separator of
        None \<Rightarrow> Inr (split_whitespace [] s)
      | Some sep \<Rightarrow> if sep = [] then Inl ValueError else Inr (split_separator sep [] s))"

section \<open>Mappers\<close>

text \<open>
  A mapper receives a row object and yields row objects. Most stock mappers write into the
  object they received and yield that same object; \<^verbatim>\<open>Split\<close> and \<^verbatim>\<open>Project\<close> build
  new ones. Each mapper is first given as a function on the content of the row (what the
  object holds when the mapper is done, or the contents of the new rows), and then as a
  call on a heap of row objects that says which object holds what.
\<close>

text \<open>\<^verbatim>\<open>row.get(column, "")\<close>\<close>

definition get_or_empty :: "row \<Rightarrow> string \<Rightarrow> val" where
  "get_or_empty row column = (case map_of row column of None \<Rightarrow> StrV [] | Some v \<Rightarrow> v)"

text \<open>\<^verbatim>\<open>row[column]\<close>\<close>

definition getitem :: "row \<Rightarrow> string \<Rightarrow> error + val" where
  "getitem row column = (case map_of row column of None \<Rightarrow> Inl (KeyError column) | Some v \<Rightarrow> Inr v)"

text \<open>\<^verbatim>\<open>FilterPunctuation.__call__\<close>, operations.py 213-216.\<close>

definition FilterPunctuation_row :: "string \<Rightarrow> row \<Rightarrow> error + row" where
  "FilterPunctuation_row column row =
     (case get_or_empty row column of
        IntV _ \<Rightarrow> Inl AttributeError
      | StrV string_ \<Rightarrow> Inr (AList.update column (StrV (strip_punctuation string_)) row))"

text \<open>\<^verbatim>\<open>LowerCase.__call__\<close>, operations.py 232-234.\<close>

definition LowerCase_row :: "string \<Rightarrow> row \<Rightarrow> error + row" where
  "LowerCase_row column row =
     (case get_or_empty row column of
        IntV _ \<Rightarrow> Inl AttributeError
      | StrV txt \<Rightarrow> Inr (AList.update column (StrV (lower txt)) row))"

text \<open>
  \<^verbatim>\<open>Split.__call__\<close>, operations.py 382-387: the contents of the rows it yields, each a
  copy of the row with the column set to one token.
\<close>

definition Split_rows :: "string \<Rightarrow> string option \<Rightarrow> row \<Rightarrow> error + row list" where
  "Split_rows column separator row =
     (case get_or_empty row column of
        IntV _ \<Rightarrow> Inl AttributeError
      | StrV str2split \<Rightarrow>
          (case split separator str2split of
             Inl e \<Rightarrow> Inl e
           | Inr substrs \<Rightarrow> Inr (map (\<lambda>substr. AList.update column (StrV substr) row) substrs)))"

text \<open>
  \<^verbatim>\<open>Product.__call__\<close>, operations.py 401-406. Python's \<^verbatim>\<open>*\<close> multiplies two integers
  and repeats a string an integer number of times; two strings are a \<open>TypeError\<close>.
\<close>

fun py_mul :: "val \<Rightarrow> val \<Rightarrow> error + val" where
  "py_mul (IntV a) (IntV b) = Inr (IntV (a * b))"
| "py_mul (IntV n) (StrV s) = Inr (StrV (concat (replicate (nat n) s)))"
| "py_mul (StrV s) (IntV n) = Inr (StrV (concat (replicate (nat n) s)))"
| "py_mul (StrV s) (StrV t) = Inl TypeError"

fun Product_loop :: "string \<Rightarrow> string list \<Rightarrow> row \<Rightarrow> error + row" where
  "Product_loop result_column [] row = Inr row"
| "Product_loop result_column (column # columns) row =
     (case getitem row result_column of
        Inl e \<Rightarrow> Inl e
      | Inr acc \<Rightarrow>
          (case getitem row column of
             Inl e \<Rightarrow> Inl e
           | Inr v \<Rightarrow>
               (case py_mul acc v of
                  Inl e \<Rightarrow> Inl e
                | Inr p \<Rightarrow> Product_loop result_column columns (AList.update result_column p row))))"

definition Product_row :: "string list \<Rightarrow> string \<Rightarrow> row \<Rightarrow> error + row" where
  "Product_row columns result_column row =
     Product_loop result_column columns (AList.update result_column (IntV 1) row)"

text \<open>\<^verbatim>\<open>Project.__call__\<close>, operations.py 432-437: the content of the new row.\<close>

fun Project_loop :: "string list \<Rightarrow> row \<Rightarrow> row \<Rightarrow> error + row" where
  "Project_loop [] row result_row = Inr result_row"
| "Project_loop (column # columns) row result_row =
     (case getitem row column of
        Inl e \<Rightarrow> Inl e
      | Inr v \<Rightarrow> Project_loop columns row (AList.update column v result_row))"

definition Project_row :: "string list \<Rightarrow> row \<Rightarrow> error + row" where
  "Project_row columns row = Project_loop columns row []"

text \<open>
  The mappers with float and date arithmetic. What they compute is outside the value model
  and is a parameter; the model keeps the order in which they read their columns and the
  write of the result. \<open>arith\<close> holds, in this order: \<^verbatim>\<open>math.log(x / y)\<close>; the pair of
  \<^verbatim>\<open>radians\<close> of a coordinate; the haversine distance of two such pairs; the weekday of
  a timestamp, with the second format tried when the first raises \<open>ValueError\<close>; its hour;
  its parse; the seconds between two parsed timestamps; \<^verbatim>\<open>d / t * 3600\<close>.
\<close>

record arith =
  log_ratio :: "val \<Rightarrow> val \<Rightarrow> error + val"
  radians_pair :: "val \<Rightarrow> error + val"
  haversine :: "val \<Rightarrow> val \<Rightarrow> error + val"
  week_day :: "val \<Rightarrow> error + val"
  hour_of :: "val \<Rightarrow> error + val"
  strptime :: "val \<Rightarrow> error + val"
  total_seconds :: "val \<Rightarrow> val \<Rightarrow> val"
  speed_of :: "val \<Rightarrow> val \<Rightarrow> error + val"

definition InverseFrequency_row :: "arith \<Rightarrow> string \<Rightarrow> string \<Rightarrow> string \<Rightarrow> row \<Rightarrow> error + row" where
  "InverseFrequency_row ar elements_amount_column encountered_elements_amount_column res_row row =
     (case getitem row elements_amount_column of
        Inl e \<Rightarrow> Inl e
      | Inr x \<Rightarrow>
          (case getitem row encountered_elements_amount_column of
             Inl e \<Rightarrow> Inl e
           | Inr y \<Rightarrow>
               (case log_ratio ar x y of
                  Inl e \<Rightarrow> Inl e
                | Inr v \<Rightarrow> Inr (AList.update res_row v row))))"

definition CalculateDistance_row :: "arith \<Rightarrow> string \<Rightarrow> string \<Rightarrow> string \<Rightarrow> row \<Rightarrow> error + row" where
  "CalculateDistance_row ar first_coordinate second_coordinate distance_column row =
     (case getitem row first_coordinate of
        Inl e \<Rightarrow> Inl e
      | Inr p \<Rightarrow>
          (case radians_pair ar p of
             Inl e \<Rightarrow> Inl e
           | Inr first \<Rightarrow>
               (case getitem row second_coordinate of
                  Inl e \<Rightarrow> Inl e
                | Inr q \<Rightarrow>
                    (case radians_pair ar q of
                       Inl e \<Rightarrow> Inl e
                     | Inr second \<Rightarrow>
                         (case haversine ar first second of
                            Inl e \<Rightarrow> Inl e
                          | Inr v \<Rightarrow> Inr (AList.update distance_column v row))))))"

definition WeekDay_row :: "arith \<Rightarrow> string \<Rightarrow> string \<Rightarrow> row \<Rightarrow> error + row" where
  "WeekDay_row ar date_column week_day_column row =
     (case getitem row date_column of
        Inl e \<Rightarrow> Inl e
      | Inr d \<Rightarrow>
          (case week_day ar d of
             Inl e \<Rightarrow> Inl e
           | Inr v \<Rightarrow> Inr (AList.update week_day_column v row)))"

definition Hour_row :: "arith \<Rightarrow> string \<Rightarrow> string \<Rightarrow> row \<Rightarrow> error + row" where
  "Hour_row ar date_column hour_column row =
     (case getitem row date_column of
        Inl e \<Rightarrow> Inl e
      | Inr d \<Rightarrow>
          (case hour_of ar d of
             Inl e \<Rightarrow> Inl e
           | Inr v \<Rightarrow> Inr (AList.update hour_column v row)))"

definition TimeDelta_row :: "arith \<Rightarrow> string \<Rightarrow> string \<Rightarrow> string \<Rightarrow> row \<Rightarrow> error + row" where
  "TimeDelta_row ar start_date_col end_date_col time_delta_column row =
     (case getitem row start_date_col of
        Inl e \<Rightarrow> Inl e
      | Inr s \<Rightarrow>
          (case strptime ar s of
             Inl e \<Rightarrow> Inl e
           | Inr enter_time \<Rightarrow>
               (case getitem row end_date_col of
                  Inl e \<Rightarrow> Inl e
                | Inr t \<Rightarrow>
                    (case strptime ar t of
                       Inl e \<Rightarrow> Inl e
                     | Inr exit_time \<Rightarrow>
                         Inr (AList.update time_delta_column
                                (total_seconds ar exit_time enter_time) row)))))"

definition Speed_row :: "arith \<Rightarrow> string \<Rightarrow> string \<Rightarrow> string \<Rightarrow> row \<Rightarrow> error + row" where
  "Speed_row ar distance_column time_column speed_column row =
     (case getitem row distance_column of
        Inl e \<Rightarrow> Inl e
      | Inr d \<Rightarrow>
          (case getitem row time_column of
             Inl e \<Rightarrow> Inl e
           | Inr t \<Rightarrow>
               (case speed_of ar d t of
                  Inl e \<Rightarrow> Inl e
                | Inr v \<Rightarrow> Inr (AList.update speed_column v row))))"

subsection \<open>Mappers on row objects\<close>

text \<open>
  The heap is the list of the row objects alive, an object's address its index. A mapper
  call takes the heap and the address of the row it receives, and returns the addresses it
  yields, in order, with the heap afterwards. A mapper with float or date arithmetic
  carries the \<open>arith\<close> it is run with. \<open>in_place\<close> is the shape
  \<^verbatim>\<open>row[c] = ...; yield row\<close>, \<open>fresh\<close> allocates new objects.
\<close>

type_synonym heap = "row list"

definition in_place :: "(row \<Rightarrow> error + row) \<Rightarrow> heap \<Rightarrow> nat \<Rightarrow> error + nat list \<times> heap" where
  "in_place f h a = (case f (h ! a) of Inl e \<Rightarrow> Inl e | Inr r \<Rightarrow> Inr ([a], h[a := r]))"

definition fresh :: "heap \<Rightarrow> row list \<Rightarrow> nat list \<times> heap" where
  "fresh h rs = ([length h ..< length h + length rs], h @ rs)"

datatype mapper =
    DummyMapper
  | FilterPunctuation string
  | LowerCase string
  | InverseFrequency arith string string string
  | CalculateDistance arith string string string
  | WeekDay arith string string
  | Hour arith string string
  | TimeDelta arith string string string
  | Speed arith string string string
  | Split string "string option"
  | Product "string list" string
  | Filter "row \<Rightarrow> bool"
  | Project "string list"

fun mapper_call :: "mapper \<Rightarrow> heap \<Rightarrow> nat \<Rightarrow> error + nat list \<times> heap" where
  "mapper_call DummyMapper h a = Inr ([a], h)"
| "mapper_call (FilterPunctuation column) h a = in_place (FilterPunctuation_row column) h a"
| "mapper_call (LowerCase column) h a = in_place (LowerCase_row column) h a"
| "mapper_call (InverseFrequency ar c1 c2 res) h a = in_place (InverseFrequency_row ar c1 c2 res) h a"
| "mapper_call (CalculateDistance ar c1 c2 res) h a = in_place (CalculateDistance_row ar c1 c2 res) h a"
| "mapper_call (WeekDay ar c res) h a = in_place (WeekDay_row ar c res) h a"
| "mapper_call (Hour ar c res) h a = in_place (Hour_row ar c res) h a"
| "mapper_call (TimeDelta ar c1 c2 res) h a = in_place (TimeDelta_row ar c1 c2 res) h a"
| "mapper_call (Speed ar c1 c2 res) h a = in_place (Speed_row ar c1 c2 res) h a"
| "mapper_call (Split column separator) h a =
     (case Split_rows column separator (h ! a) of Inl e \<Rightarrow> Inl e | Inr rs \<Rightarrow> Inr (fresh h rs))"
| "mapper_call (Product columns result_column) h a = in_place (Product_row columns result_column) h a"
| "mapper_call (Filter condition) h a = Inr (if condition (h ! a) then [a] else [], h)"
| "mapper_call (Project columns) h a =
     (case Project_row columns (h ! a) of Inl e \<Rightarrow> Inl e | Inr r \<Rightarrow> Inr (fresh h [r]))"

text \<open>
  \<^verbatim>\<open>Map.__call__\<close>, operations.py 45-52: the rows of the input in order, each handed to
  the mapper, the yields concatenated.
\<close>

fun Map_call :: "mapper \<Rightarrow> heap \<Rightarrow> nat list \<Rightarrow> error + nat list \<times> heap" where
  "Map_call m h [] = Inr ([], h)"
| "Map_call m h (a # as) =
     (case mapper_call m h a of
        Inl e \<Rightarrow> Inl e
      | Inr (out, h1) \<Rightarrow>
          (case Map_call m h1 as of
             Inl e \<Rightarrow> Inl e
           | Inr (outs, h2) \<Rightarrow> Inr (out @ outs, h2)))"

section \<open>The grouping iterator\<close>

text \<open>
  \<^verbatim>\<open>GroupsCreator\<close>, groups.py 9-60. The object holds the key list, the upstream rows
  not pulled yet, the key values of the current group, its first row (\<open>None\<close> when no
  group is left) and the generator of the current group. A generator left unfinished by
  its consumer is finished by \<^verbatim>\<open>update_generator\<close> before the next one is made, so the
  model runs a group generator to its end in one step and records whether that happened.
\<close>

record groups_creator =
  creator_keys :: "string list"
  rows_generator :: "row list"
  group_key_values :: "val list"
  first_group_element :: "row option"
  generator_finished :: bool

text \<open>\<^verbatim>\<open>tuple(row[key] for key in self.keys)\<close>\<close>

fun key_values :: "string list \<Rightarrow> row \<Rightarrow> error + val list" where
  "key_values [] row = Inr []"
| "key_values (key # ks) row =
     (case getitem row key of
        Inl e \<Rightarrow> Inl e
      | Inr v \<Rightarrow> (case key_values ks row of Inl e \<Rightarrow> Inl e | Inr vs \<Rightarrow> Inr (v # vs)))"

text \<open>\<^verbatim>\<open>GroupsCreator.__init__\<close>, groups.py 12-30.\<close>

definition GroupsCreator :: "row list \<Rightarrow> string list \<Rightarrow> error + groups_creator" where
  "GroupsCreator rows ks =
     (case rows of
        [] \<Rightarrow> Inr \<lparr>creator_keys = ks, rows_generator = [], group_key_values = [],
                  first_group_element = None, generator_finished = False\<rparr>
      | row # rest \<Rightarrow>
          (case key_values ks row of
             Inl e \<Rightarrow> Inl e
           | Inr vs \<Rightarrow> Inr \<lparr>creator_keys = ks, rows_generator = rest, group_key_values = vs,
                            first_group_element = Some row, generator_finished = False\<rparr>))"

text \<open>
  The \<^verbatim>\<open>for\<close> loop of \<^verbatim>\<open>group_iterator\<close>, groups.py 50-60: the rows it yields, and the
  key values, first row and upstream it leaves behind.
\<close>

fun group_loop ::
  "string list \<Rightarrow> val list \<Rightarrow> row list \<Rightarrow> error + row list \<times> val list \<times> row option \<times> row list" where
  "group_loop ks gkv [] = Inr ([], gkv, None, [])"
| "group_loop ks gkv (row # rest) =
     (case key_values ks row of
        Inl e \<Rightarrow> Inl e
      | Inr current_values \<Rightarrow>
          if current_values \<noteq> gkv then Inr ([], current_values, Some row, rest)
          else (case group_loop ks gkv rest of
                  Inl e \<Rightarrow> Inl e
                | Inr (ys, st) \<Rightarrow> Inr (row # ys, st)))"

text \<open>\<^verbatim>\<open>group_iterator\<close>, groups.py 41-60, run to its end on a new generator.\<close>

definition group_iterator :: "groups_creator \<Rightarrow> error + row list \<times> groups_creator" where
  "group_iterator gc =
     (case first_group_element gc of
        None \<Rightarrow> Inr ([], gc)
      | Some first \<Rightarrow>
          (case group_loop (creator_keys gc) (group_key_values gc) (rows_generator gc) of
             Inl e \<Rightarrow> Inl e
           | Inr (ys, gkv, fge, rest) \<Rightarrow>
               Inr (first # ys,
                    gc\<lparr>rows_generator := rest, group_key_values := gkv,
                       first_group_element := fge\<rparr>)))"

text \<open>
  Running \<^verbatim>\<open>self.group_generator\<close> to its end: a finished generator yields nothing
  and changes nothing.
\<close>

definition run_group_generator :: "groups_creator \<Rightarrow> error + row list \<times> groups_creator" where
  "run_group_generator gc =
     (if generator_finished gc then Inr ([], gc)
      else (case group_iterator gc of
              Inl e \<Rightarrow> Inl e
            | Inr (ys, gc1) \<Rightarrow> Inr (ys, gc1\<lparr>generator_finished := True\<rparr>)))"

text \<open>\<^verbatim>\<open>update_generator\<close>, groups.py 32-39.\<close>

definition update_generator :: "groups_creator \<Rightarrow> error + groups_creator" where
  "update_generator gc =
     (case run_group_generator gc of
        Inl e \<Rightarrow> Inl e
      | Inr (ys, gc1) \<Rightarrow> Inr (gc1\<lparr>generator_finished := False\<rparr>))"

definition creator_size :: "groups_creator \<Rightarrow> nat" where
  "creator_size gc =
     (case first_group_element gc of
        None \<Rightarrow> 0
      | Some _ \<Rightarrow> 2 * length (rows_generator gc) + (if generator_finished gc then 2 else 1))"

lemma group_loop_shorter:
  "group_loop ks gkv rs = Inr (ys, gkv1, fge, rest) \<Longrightarrow>
   (fge = None \<and> rest = []) \<or> length rest < length rs"
proof (induction rs arbitrary: ys)
  case Nil
  then show ?case by simp
next
  case (Cons r rs)
  then show ?case
    by (fastforce split: sum.splits if_splits prod.splits)
qed

lemma run_then_update_smaller:
  assumes "first_group_element gc = Some f"
    and "run_group_generator gc = Inr (ys, gc1)"
    and "update_generator gc1 = Inr gc2"
  shows "creator_size gc2 < creator_size gc"
proof (cases "generator_finished gc")
  case True
  with assms have "gc1 = gc" by (simp add: run_group_generator_def)
  with assms True show ?thesis
    by (auto simp: update_generator_def run_group_generator_def creator_size_def)
next
  case False
  with assms obtain zs gkv fge rest where
    loop: "group_loop (creator_keys gc) (group_key_values gc) (rows_generator gc)
             = Inr (zs, gkv, fge, rest)"
    and gc1: "gc1 = gc\<lparr>rows_generator := rest, group_key_values := gkv,
                first_group_element := fge, generator_finished := True\<rparr>"
    by (auto simp: run_group_generator_def group_iterator_def split: sum.splits prod.splits)
  from assms(3) gc1 have gc2: "gc2 = gc1\<lparr>generator_finished := False\<rparr>"
    by (simp add: update_generator_def run_group_generator_def)
  from group_loop_shorter [OF loop] show ?thesis
    using assms(1) False gc1 gc2
    by (auto simp: creator_size_def split: option.splits)
qed

text \<open>
  The groups the iterator produces, as the loop of \<^verbatim>\<open>Reduce.__call__\<close> drives it
  (operations.py 82-88): while a group is left, run its generator, then
  \<^verbatim>\<open>update_generator\<close>.
\<close>

function groups_loop :: "groups_creator \<Rightarrow> error + row list list" where
  "groups_loop gc =
     (case first_group_element gc of
        None \<Rightarrow> Inr []
      | Some _ \<Rightarrow>
          (case run_group_generator gc of
             Inl e \<Rightarrow> Inl e
           | Inr (ys, gc1) \<Rightarrow>
               (case update_generator gc1 of
                  Inl e \<Rightarrow> Inl e
                | Inr gc2 \<Rightarrow>
                    (case groups_loop gc2 of
                       Inl e \<Rightarrow> Inl e
                     | Inr gs \<Rightarrow> Inr (ys # gs)))))"
  by pat_completeness auto
termination
  by (relation "measure creator_size") (auto intro: run_then_update_smaller)

declare groups_loop.simps [simp del]

definition all_groups :: "string list \<Rightarrow> row list \<Rightarrow> error + row list list" where
  "all_groups ks rows =
     (case GroupsCreator rows ks of Inl e \<Rightarrow> Inl e | Inr gc \<Rightarrow> groups_loop gc)"

section \<open>Reducers\<close>

text \<open>
  A reducer receives the key tuple and the generator of one group; \<open>rows\<close> is what that
  generator yields. After its \<^verbatim>\<open>for\<close> loop the reducers read the loop variable
  \<^verbatim>\<open>row\<close>, the last row of the group, which is unbound (\<open>NameError\<close>) when the group
  was empty.
\<close>

definition last_row :: "row list \<Rightarrow> error + row" where
  "last_row rows = (if rows = [] then Inl NameError else Inr (last rows))"

text \<open>\<^verbatim>\<open>for key in group_key: ans[key] = row[key]\<close>\<close>

fun echo_keys :: "string list \<Rightarrow> row list \<Rightarrow> row \<Rightarrow> error + row" where
  "echo_keys [] rows ans = Inr ans"
| "echo_keys (key # ks) rows ans =
     (case last_row rows of
        Inl e \<Rightarrow> Inl e
      | Inr row \<Rightarrow>
          (case getitem row key of
             Inl e \<Rightarrow> Inl e
           | Inr v \<Rightarrow> echo_keys ks rows (AList.update key v ans)))"

text \<open>\<^verbatim>\<open>Count.__call__\<close>, operations.py 507-520.\<close>

definition Count_call :: "string \<Rightarrow> string list \<Rightarrow> row list \<Rightarrow> error + row list" where
  "Count_call column group_key rows =
     (let counter = int (length rows)
      in case echo_keys group_key rows [] of
           Inl e \<Rightarrow> Inl e
         | Inr ans \<Rightarrow> Inr [AList.update column (IntV counter) ans])"

text \<open>
  \<^verbatim>\<open>Sum.__call__\<close>, operations.py 532-542. the sum starts as the integer 0, and
  \<^verbatim>\<open>+\<close> of an integer and a string is a \<open>TypeError\<close>.
\<close>

fun Sum_loop :: "string \<Rightarrow> row list \<Rightarrow> int \<Rightarrow> error + int" where
  "Sum_loop column [] sum_acc = Inr sum_acc"
| "Sum_loop column (row # rows) sum_acc =
     (case getitem row column of
        Inl e \<Rightarrow> Inl e
      | Inr (IntV n) \<Rightarrow> Sum_loop column rows (sum_acc + n)
      | Inr (StrV s) \<Rightarrow> Inl TypeError)"

definition Sum_call :: "string \<Rightarrow> string list \<Rightarrow> row list \<Rightarrow> error + row list" where
  "Sum_call column group_key rows =
     (case Sum_loop column rows 0 of
        Inl e \<Rightarrow> Inl e
      | Inr sum_all \<Rightarrow>
          (case group_key of
             [] \<Rightarrow> Inl IndexError
           | key0 # _ \<Rightarrow>
               (case last_row rows of
                  Inl e \<Rightarrow> Inl e
                | Inr row \<Rightarrow>
                    (case getitem row key0 of
                       Inl e \<Rightarrow> Inl e
                     | Inr v \<Rightarrow>
                         Inr [AList.update column (IntV sum_all) (AList.update key0 v [])]))))"

text \<open>\<^verbatim>\<open>FirstReducer.__call__\<close>, operations.py 195-198.\<close>

definition FirstReducer_call :: "string list \<Rightarrow> row list \<Rightarrow> error + row list" where
  "FirstReducer_call group_key rows = Inr (take 1 rows)"

datatype reducer = FirstReducer | Count string | Sum string

fun reducer_call :: "reducer \<Rightarrow> string list \<Rightarrow> row list \<Rightarrow> error + row list" where
  "reducer_call FirstReducer group_key rows = FirstReducer_call group_key rows"
| "reducer_call (Count column) group_key rows = Count_call column group_key rows"
| "reducer_call (Sum column) group_key rows = Sum_call column group_key rows"

text \<open>\<^verbatim>\<open>Reduce.__call__\<close>, operations.py 77-88.\<close>

function Reduce_loop :: "reducer \<Rightarrow> string list \<Rightarrow> groups_creator \<Rightarrow> error + row list" where
  "Reduce_loop r ks gc =
     (case first_group_element gc of
        None \<Rightarrow> Inr []
      | Some _ \<Rightarrow>
          (case run_group_generator gc of
             Inl e \<Rightarrow> Inl e
           | Inr (rows, gc1) \<Rightarrow>
               (case reducer_call r ks rows of
                  Inl e \<Rightarrow> Inl e
                | Inr out \<Rightarrow>
                    (case update_generator gc1 of
                       Inl e \<Rightarrow> Inl e
                     | Inr gc2 \<Rightarrow>
                         (case Reduce_loop r ks gc2 of
                            Inl e \<Rightarrow> Inl e
                          | Inr outs \<Rightarrow> Inr (out @ outs))))))"
  by pat_completeness auto
termination
  by (relation "measure (\<lambda>(r, ks, gc). creator_size gc)") (auto intro: run_then_update_smaller)

declare Reduce_loop.simps [simp del]

definition Reduce_call :: "reducer \<Rightarrow> string list \<Rightarrow> row list \<Rightarrow> error + row list" where
  "Reduce_call r ks rows =
     (case GroupsCreator rows ks of Inl e \<Rightarrow> Inl e | Inr gc \<Rightarrow> Reduce_loop r ks gc)"

section \<open>Joiners\<close>

subsection \<open>The row merge\<close>

text \<open>
  \<^verbatim>\<open>merge_two_dicts_by_keys\<close>, operations.py 574-608. The first loop runs over the
  columns of \<open>a_row\<close> in order, the second over those of \<open>b_row\<close>; both write into
  \<open>merged_dct\<close>, a later write to a name replacing an earlier one.
\<close>

definition merge_a_step ::
  "row \<Rightarrow> string \<Rightarrow> string \<Rightarrow> string list \<Rightarrow> string \<times> val \<Rightarrow> row \<Rightarrow> row" where
  "merge_a_step b_row suffix_a suffix_b keys kv merged_dct =
     (case kv of (key, v) \<Rightarrow>
        (case map_of b_row key of
           Some w \<Rightarrow>
             if key \<notin> set keys
             then AList.update (key @ suffix_b) w (AList.update (key @ suffix_a) v merged_dct)
             else AList.update key v merged_dct
         | None \<Rightarrow> AList.update key v merged_dct))"

definition merge_b_step :: "string \<Rightarrow> string \<times> val \<Rightarrow> row \<Rightarrow> row" where
  "merge_b_step suffix_b kv merged_dct =
     (case kv of (key, v) \<Rightarrow>
        if map_of merged_dct key = None \<and> map_of merged_dct (key @ suffix_b) = None
        then AList.update key v merged_dct
        else merged_dct)"

definition merge_loops :: "row \<Rightarrow> row \<Rightarrow> string \<Rightarrow> string \<Rightarrow> string list \<Rightarrow> row" where
  "merge_loops a_row b_row suffix_a suffix_b keys =
     fold (merge_b_step suffix_b) b_row
       (fold (merge_a_step b_row suffix_a suffix_b keys) a_row [])"

definition merge_two_dicts_by_keys ::
  "row \<Rightarrow> row \<Rightarrow> string \<Rightarrow> string \<Rightarrow> string list \<Rightarrow> row" where
  "merge_two_dicts_by_keys a_row b_row suffix_a suffix_b keys =
     (if length a_row = 0
      then merge_loops b_row [] suffix_b suffix_a keys
      else merge_loops a_row b_row suffix_a suffix_b keys)"

subsection \<open>The four strategies\<close>

text \<open>
  A joiner receives two iterables. The \<^verbatim>\<open>Join\<close> operator passes either the generator
  of a group or the list literal \<^verbatim>\<open>[dict()]\<close>, and the joiners test
  \<^verbatim>\<open>rows_a == [dict()]\<close>: a generator never equals a list, a list equals it when it
  holds exactly one row and that row has no column. \<open>Generator rs\<close> is a generator that
  yields the rows \<open>rs\<close> when it is run to its end.
\<close>

datatype rows_iterable = PyList "row list" | Generator "row list"

fun iter_rows :: "rows_iterable \<Rightarrow> row list" where
  "iter_rows (PyList rs) = rs"
| "iter_rows (Generator rs) = rs"

definition eq_empty_row_list :: "rows_iterable \<Rightarrow> bool" where
  "eq_empty_row_list rows = (case rows of PyList rs \<Rightarrow> rs = [[]] | Generator _ \<Rightarrow> False)"

datatype joiner =
    InnerJoiner string string
  | OuterJoiner string string
  | LeftJoiner string string
  | RightJoiner string string

fun a_suffix :: "joiner \<Rightarrow> string" where
  "a_suffix (InnerJoiner sa sb) = sa"
| "a_suffix (OuterJoiner sa sb) = sa"
| "a_suffix (LeftJoiner sa sb) = sa"
| "a_suffix (RightJoiner sa sb) = sa"

fun b_suffix :: "joiner \<Rightarrow> string" where
  "b_suffix (InnerJoiner sa sb) = sb"
| "b_suffix (OuterJoiner sa sb) = sb"
| "b_suffix (LeftJoiner sa sb) = sb"
| "b_suffix (RightJoiner sa sb) = sb"

text \<open>
  The nested loops of every joiner: \<open>guard\<close> is the test in front of the
  \<^verbatim>\<open>yield\<close>, computed before the loops start.
\<close>

definition join_loops ::
  "bool \<Rightarrow> string \<Rightarrow> string \<Rightarrow> string list \<Rightarrow> row list \<Rightarrow> row list \<Rightarrow> row list" where
  "join_loops guard sa sb keys rows_a rows_b =
     concat (map (\<lambda>row_a.
       concat (map (\<lambda>row_b.
         if guard then [merge_two_dicts_by_keys row_a row_b sa sb keys] else []) rows_b)) rows_a)"

fun joiner_call :: "joiner \<Rightarrow> string list \<Rightarrow> rows_iterable \<Rightarrow> rows_iterable \<Rightarrow> row list" where
  "joiner_call (InnerJoiner sa sb) keys rows_a rows_b =
     (let left_dict_is_none = eq_empty_row_list rows_a;
          right_dict_is_none = eq_empty_row_list rows_b
      in join_loops (\<not> left_dict_is_none \<and> \<not> right_dict_is_none) sa sb keys
           (iter_rows rows_a) (iter_rows rows_b))"
| "joiner_call (OuterJoiner sa sb) keys rows_a rows_b =
     join_loops True sa sb keys (iter_rows rows_a) (iter_rows rows_b)"
| "joiner_call (LeftJoiner sa sb) keys rows_a rows_b =
     (let left_dict_is_none = eq_empty_row_list rows_a
      in join_loops (\<not> left_dict_is_none) sa sb keys (iter_rows rows_a) (iter_rows rows_b))"
| "joiner_call (RightJoiner sa sb) keys rows_a rows_b =
     (let right_dict_is_none = eq_empty_row_list rows_b
      in join_loops (\<not> right_dict_is_none) sa sb keys (iter_rows rows_a) (iter_rows rows_b))"

text \<open>The merged Cartesian product of two groups, left rows outermost.\<close>

definition merged_product :: "joiner \<Rightarrow> string list \<Rightarrow> row list \<Rightarrow> row list \<Rightarrow> row list" where
  "merged_product j keys rows_a rows_b =
     map (\<lambda>(row_a, row_b). merge_two_dicts_by_keys row_a row_b (a_suffix j) (b_suffix j) keys)
       (List.product rows_a rows_b)"

section \<open>The Join operator\<close>

text \<open>
  Python's \<^verbatim>\<open><\<close> on two values of the model: integers by size, strings by code
  points, an integer against a string is a \<open>TypeError\<close>. \<^verbatim>\<open>x > y\<close> is \<^verbatim>\<open>y < x\<close>.
  On integers and on strings the order is total; that is a property of these two kinds of
  value and not of \<^verbatim>\<open><\<close> in general (a float NaN is neither smaller nor larger than
  any value, and not equal to it), so every statement below that needs it says that the
  keys are integers or strings.
\<close>

fun py_lt :: "val \<Rightarrow> val \<Rightarrow> error + bool" where
  "py_lt (IntV a) (IntV b) = Inr (a < b)"
| "py_lt (StrV s) (StrV t) = Inr (s < t)"
| "py_lt (IntV a) (StrV t) = Inl TypeError"
| "py_lt (StrV s) (IntV b) = Inl TypeError"

text \<open>\<^verbatim>\<open>compare_key_values\<close>, operations.py 108-122.\<close>

fun compare_key_values :: "val list \<Rightarrow> val list \<Rightarrow> error + int \<times> int" where
  "compare_key_values (first # first_values) (second # second_values) =
     (case py_lt first second of
        Inl e \<Rightarrow> Inl e
      | Inr True \<Rightarrow> Inr (0, 1)
      | Inr False \<Rightarrow>
          (case py_lt second first of
             Inl e \<Rightarrow> Inl e
           | Inr True \<Rightarrow> Inr (1, 0)
           | Inr False \<Rightarrow> compare_key_values first_values second_values))"
| "compare_key_values [] second_values = Inr (1, 1)"
| "compare_key_values first_values [] = Inr (1, 1)"

text \<open>
  The truth value of \<^verbatim>\<open>first_group_element\<close> in the test of the first loop:
  \<^verbatim>\<open>None\<close> is false, and so is a row with no column.
\<close>

definition truthy :: "row option \<Rightarrow> bool" where
  "truthy x = (case x of None \<Rightarrow> False | Some row \<Rightarrow> row \<noteq> [])"

text \<open>
  One round of a loop of \<^verbatim>\<open>Join.__call__\<close> on one side: the group generator is handed
  to the joiner, which runs it to its end, and \<^verbatim>\<open>update_generator\<close> follows.
\<close>

definition take_group :: "groups_creator \<Rightarrow> error + row list \<times> groups_creator" where
  "take_group gc =
     (case run_group_generator gc of
        Inl e \<Rightarrow> Inl e
      | Inr (rows, gc1) \<Rightarrow>
          (case update_generator gc1 of Inl e \<Rightarrow> Inl e | Inr gc2 \<Rightarrow> Inr (rows, gc2)))"

lemma take_group_smaller:
  "first_group_element gc = Some f \<Longrightarrow> take_group gc = Inr (rows, gc2) \<Longrightarrow>
   creator_size gc2 < creator_size gc"
  by (auto simp: take_group_def split: sum.splits prod.splits intro: run_then_update_smaller)

text \<open>
  The first loop, operations.py 145-167. In the branch of equal keys the joiner turns the
  right generator into a tuple before it pulls the first left row.
\<close>

function Join_both ::
  "joiner \<Rightarrow> string list \<Rightarrow> groups_creator \<Rightarrow> groups_creator
     \<Rightarrow> error + row list \<times> groups_creator \<times> groups_creator" where
  "Join_both j ks left right =
     (if truthy (first_group_element left) \<and> truthy (first_group_element right) then
        (case compare_key_values (group_key_values left) (group_key_values right) of
           Inl e \<Rightarrow> Inl e
         | Inr (left_group_operand, right_group_operand) \<Rightarrow>
             if left_group_operand = right_group_operand then
               (case take_group right of
                  Inl e \<Rightarrow> Inl e
                | Inr (rows_b, right1) \<Rightarrow>
                    (case take_group left of
                       Inl e \<Rightarrow> Inl e
                     | Inr (rows_a, left1) \<Rightarrow>
                         (case Join_both j ks left1 right1 of
                            Inl e \<Rightarrow> Inl e
                          | Inr (out, st) \<Rightarrow>
                              Inr (joiner_call j ks (Generator rows_a) (Generator rows_b) @ out,
                                   st))))
             else if left_group_operand > right_group_operand then
               (case take_group right of
                  Inl e \<Rightarrow> Inl e
                | Inr (rows_b, right1) \<Rightarrow>
                    (case Join_both j ks left right1 of
                       Inl e \<Rightarrow> Inl e
                     | Inr (out, st) \<Rightarrow>
                         Inr (joiner_call j ks (PyList [[]]) (Generator rows_b) @ out, st)))
             else
               (case take_group left of
                  Inl e \<Rightarrow> Inl e
                | Inr (rows_a, left1) \<Rightarrow>
                    (case Join_both j ks left1 right of
                       Inl e \<Rightarrow> Inl e
                     | Inr (out, st) \<Rightarrow>
                         Inr (joiner_call j ks (Generator rows_a) (PyList [[]]) @ out, st))))
      else Inr ([], left, right))"
  by pat_completeness auto
termination
proof (relation "measure (\<lambda>(j, ks, left, right). creator_size left + creator_size right)",
    goal_cases)
  case 1
  show ?case by simp
next
  case (2 j ks left right x lo ro y rows_b right1 z rows_a left1)
  then show ?case
    by (auto simp: truthy_def split: option.splits dest!: take_group_smaller)
next
  case (3 j ks left right x lo ro y rows_b right1)
  then show ?case
    by (auto simp: truthy_def split: option.splits dest!: take_group_smaller)
next
  case (4 j ks left right x lo ro y rows_a left1)
  then show ?case
    by (auto simp: truthy_def split: option.splits dest!: take_group_smaller)
qed

declare Join_both.simps [simp del]

text \<open>The second loop, operations.py 169-173.\<close>

function Join_left_rest :: "joiner \<Rightarrow> string list \<Rightarrow> groups_creator \<Rightarrow> error + row list" where
  "Join_left_rest j ks left =
     (case first_group_element left of
        None \<Rightarrow> Inr []
      | Some _ \<Rightarrow>
          (case take_group left of
             Inl e \<Rightarrow> Inl e
           | Inr (rows_a, left1) \<Rightarrow>
               (case Join_left_rest j ks left1 of
                  Inl e \<Rightarrow> Inl e
                | Inr out \<Rightarrow> Inr (joiner_call j ks (Generator rows_a) (PyList [[]]) @ out))))"
  by pat_completeness auto
termination
  by (relation "measure (\<lambda>(j, ks, left). creator_size left)")
    (auto dest!: take_group_smaller)

declare Join_left_rest.simps [simp del]

text \<open>The third loop, operations.py 175-179.\<close>

function Join_right_rest :: "joiner \<Rightarrow> string list \<Rightarrow> groups_creator \<Rightarrow> error + row list" where
  "Join_right_rest j ks right =
     (case first_group_element right of
        None \<Rightarrow> Inr []
      | Some _ \<Rightarrow>
          (case take_group right of
             Inl e \<Rightarrow> Inl e
           | Inr (rows_b, right1) \<Rightarrow>
               (case Join_right_rest j ks right1 of
                  Inl e \<Rightarrow> Inl e
                | Inr out \<Rightarrow> Inr (joiner_call j ks (PyList [[]]) (Generator rows_b) @ out))))"
  by pat_completeness auto
termination
  by (relation "measure (\<lambda>(j, ks, right). creator_size right)")
    (auto dest!: take_group_smaller)

declare Join_right_rest.simps [simp del]

text \<open>\<^verbatim>\<open>Join.__call__\<close>, operations.py 136-179: \<open>rows\<close> is the left input, \<open>arg0\<close> the right.\<close>

definition Join_call :: "joiner \<Rightarrow> string list \<Rightarrow> row list \<Rightarrow> row list \<Rightarrow> error + row list" where
  "Join_call j ks rows arg0 =
     (case GroupsCreator rows ks of
        Inl e \<Rightarrow> Inl e
      | Inr left_groups_creator \<Rightarrow>
          (case GroupsCreator arg0 ks of
             Inl e \<Rightarrow> Inl e
           | Inr right_groups_creator \<Rightarrow>
               (case Join_both j ks left_groups_creator right_groups_creator of
                  Inl e \<Rightarrow> Inl e
                | Inr (out1, left, right) \<Rightarrow>
                    (case Join_left_rest j ks left of
                       Inl e \<Rightarrow> Inl e
                     | Inr out2 \<Rightarrow>
                         (case Join_right_rest j ks right of
                            Inl e \<Rightarrow> Inl e
                          | Inr out3 \<Rightarrow> Inr (out1 @ out2 @ out3))))))"

section \<open>The merge join as the specification words it\<close>

text \<open>
  The key tuple of a row is its projection onto the key columns. A group is a maximal run
  of consecutive rows with one key tuple. The state machine holds the groups of both
  sides: on equal keys the joiner gets both current groups and both sides advance, on a
  smaller left key it gets the left group against \<^verbatim>\<open>[empty_row]\<close> and the left side
  advances, on a larger left key the right group against \<^verbatim>\<open>[empty_row]\<close> and the right
  side advances; when one side has no group left the other is drained against
  \<^verbatim>\<open>[empty_row]\<close>.
\<close>

definition key_tuple :: "string list \<Rightarrow> row \<Rightarrow> val option list" where
  "key_tuple ks row = map (map_of row) ks"

function spec_groups :: "string list \<Rightarrow> row list \<Rightarrow> (val option list \<times> row list) list" where
  "spec_groups ks [] = []"
| "spec_groups ks (r # rs) =
     (key_tuple ks r, r # takeWhile (\<lambda>s. key_tuple ks s = key_tuple ks r) rs)
       # spec_groups ks (dropWhile (\<lambda>s. key_tuple ks s = key_tuple ks r) rs)"
  by pat_completeness auto
termination
  by (relation "measure (\<lambda>(ks, rs). length rs)") (auto simp: length_dropWhile_le less_Suc_eq_le)

fun val_less :: "val \<Rightarrow> val \<Rightarrow> bool" where
  "val_less (IntV a) (IntV b) = (a < b)"
| "val_less (StrV s) (StrV t) = (s < t)"
| "val_less (IntV a) (StrV t) = False"
| "val_less (StrV s) (IntV b) = False"

fun tuple_less :: "val option list \<Rightarrow> val option list \<Rightarrow> bool" where
  "tuple_less (Some x # xs) (Some y # ys) = (val_less x y \<or> (x = y \<and> tuple_less xs ys))"
| "tuple_less xs ys = False"

fun spec_merge_join ::
  "joiner \<Rightarrow> string list \<Rightarrow> (val option list \<times> row list) list
     \<Rightarrow> (val option list \<times> row list) list \<Rightarrow> row list" where
  "spec_merge_join j ks [] [] = []"
| "spec_merge_join j ks ((kl, gl) # ls) [] =
     joiner_call j ks (Generator gl) (PyList [[]]) @ spec_merge_join j ks ls []"
| "spec_merge_join j ks [] ((kr, gr) # rs) =
     joiner_call j ks (PyList [[]]) (Generator gr) @ spec_merge_join j ks [] rs"
| "spec_merge_join j ks ((kl, gl) # ls) ((kr, gr) # rs) =
     (if kl = kr then
        joiner_call j ks (Generator gl) (Generator gr) @ spec_merge_join j ks ls rs
      else if tuple_less kl kr then
        joiner_call j ks (Generator gl) (PyList [[]]) @ spec_merge_join j ks ls ((kr, gr) # rs)
      else
        joiner_call j ks (PyList [[]]) (Generator gr) @ spec_merge_join j ks ((kl, gl) # ls) rs)"

definition spec_Join :: "joiner \<Rightarrow> string list \<Rightarrow> row list \<Rightarrow> row list \<Rightarrow> row list" where
  "spec_Join j ks rows arg0 = spec_merge_join j ks (spec_groups ks rows) (spec_groups ks arg0)"

section \<open>Notions used to state the properties of the mappers\<close>

text \<open>The mappers whose body is \<^verbatim>\<open>row[c] = ...; yield row\<close>.\<close>

fun writes_in_place :: "mapper \<Rightarrow> bool" where
  "writes_in_place DummyMapper = False"
| "writes_in_place (FilterPunctuation column) = True"
| "writes_in_place (LowerCase column) = True"
| "writes_in_place (InverseFrequency ar c1 c2 res) = True"
| "writes_in_place (CalculateDistance ar c1 c2 res) = True"
| "writes_in_place (WeekDay ar c res) = True"
| "writes_in_place (Hour ar c res) = True"
| "writes_in_place (TimeDelta ar c1 c2 res) = True"
| "writes_in_place (Speed ar c1 c2 res) = True"
| "writes_in_place (Split column separator) = False"
| "writes_in_place (Product cs result_column) = True"
| "writes_in_place (Filter condition) = False"
| "writes_in_place (Project cs) = False"



text \<open>
  The column a mapper of that shape assigns to, and what the row it received holds when
  the call is over: for a mapper that writes in place the result of its body, for the
  others the row as it was.
\<close>

fun written_column :: "mapper \<Rightarrow> string option" where
  "written_column DummyMapper = None"
| "written_column (FilterPunctuation column) = Some column"
| "written_column (LowerCase column) = Some column"
| "written_column (InverseFrequency ar c1 c2 res) = Some res"
| "written_column (CalculateDistance ar c1 c2 res) = Some res"
| "written_column (WeekDay ar c res) = Some res"
| "written_column (Hour ar c res) = Some res"
| "written_column (TimeDelta ar c1 c2 res) = Some res"
| "written_column (Speed ar c1 c2 res) = Some res"
| "written_column (Split column separator) = None"
| "written_column (Product cs result_column) = Some result_column"
| "written_column (Filter condition) = None"
| "written_column (Project cs) = None"

fun row_after :: "mapper \<Rightarrow> row \<Rightarrow> error + row" where
  "row_after DummyMapper row = Inr row"
| "row_after (FilterPunctuation column) row = FilterPunctuation_row column row"
| "row_after (LowerCase column) row = LowerCase_row column row"
| "row_after (InverseFrequency ar c1 c2 res) row = InverseFrequency_row ar c1 c2 res row"
| "row_after (CalculateDistance ar c1 c2 res) row = CalculateDistance_row ar c1 c2 res row"
| "row_after (WeekDay ar c res) row = WeekDay_row ar c res row"
| "row_after (Hour ar c res) row = Hour_row ar c res row"
| "row_after (TimeDelta ar c1 c2 res) row = TimeDelta_row ar c1 c2 res row"
| "row_after (Speed ar c1 c2 res) row = Speed_row ar c1 c2 res row"
| "row_after (Split column separator) row = Inr row"
| "row_after (Product cs result_column) row = Product_row cs result_column row"
| "row_after (Filter condition) row = Inr row"
| "row_after (Project cs) row = Inr row"

section \<open>Notions used to state the properties of grouping and joining\<close>

text \<open>A row has the key columns; then it has a key tuple.\<close>

definition has_keys :: "string list \<Rightarrow> row \<Rightarrow> bool" where
  "has_keys ks row = (\<forall>k\<in>set ks. map_of row k \<noteq> None)"

text \<open>The elements of a list in the order of their first appearance.\<close>

fun first_occurrences :: "'a list \<Rightarrow> 'a list" where
  "first_occurrences [] = []"
| "first_occurrences (x # xs) = x # removeAll x (first_occurrences xs)"

text \<open>The rows a grouping iterator has not handed out in a finished group yet.\<close>

definition pending :: "groups_creator \<Rightarrow> row list" where
  "pending gc = (case first_group_element gc of None \<Rightarrow> [] | Some f \<Rightarrow> f # rows_generator gc)"

text \<open>
  Two values Python can order against each other, and two rows whose values can be
  ordered against each other in every key column: the key columns of the two streams of a
  join hold values of one kind.
\<close>

fun same_kind :: "val \<Rightarrow> val \<Rightarrow> bool" where
  "same_kind (IntV a) (IntV b) = True"
| "same_kind (StrV s) (StrV t) = True"
| "same_kind (IntV a) (StrV t) = False"
| "same_kind (StrV s) (IntV b) = False"

definition comparable_rows :: "string list \<Rightarrow> row \<Rightarrow> row \<Rightarrow> bool" where
  "comparable_rows ks l r =
     (\<forall>k\<in>set ks. case (map_of l k, map_of r k) of
                    (Some u, Some v) \<Rightarrow> same_kind u v
                  | _ \<Rightarrow> False)"

text \<open>
  The state of a grouping iterator between two groups, over rows that have the key
  columns: the generator is new, the key values are those of the first row held, and
  when no row is held the upstream is used up.
\<close>

definition creator_ok :: "string list \<Rightarrow> groups_creator \<Rightarrow> bool" where
  "creator_ok ks gc =
     (creator_keys gc = ks \<and> \<not> generator_finished gc
      \<and> (\<forall>r\<in>set (pending gc). has_keys ks r)
      \<and> (case first_group_element gc of
            None \<Rightarrow> rows_generator gc = []
          | Some f \<Rightarrow> key_values ks f = Inr (group_key_values gc)))"

section \<open>The merged row as the specification words it\<close>





section \<open>Properties of the joiners\<close>

lemma join_loops_True:
  "join_loops True sa sb keys rows_a rows_b =
     map (\<lambda>(row_a, row_b). merge_two_dicts_by_keys row_a row_b sa sb keys)
       (List.product rows_a rows_b)"
  by (induction rows_a) (simp_all add: join_loops_def comp_def)

lemma join_loops_False: "join_loops False sa sb keys rows_a rows_b = []"
  by (simp add: join_loops_def)

lemma joiner_call_present:
  "\<not> eq_empty_row_list rows_a \<Longrightarrow> \<not> eq_empty_row_list rows_b \<Longrightarrow>
   joiner_call j keys rows_a rows_b = merged_product j keys (iter_rows rows_a) (iter_rows rows_b)"
  by (cases j) (simp_all add: join_loops_True merged_product_def)

text \<open>
  Claim C4. When neither side is the sentinel \<^verbatim>\<open>[dict()]\<close>, each of the four joiners
  emits the merged Cartesian product of the two groups. When the right side is the sentinel
  and the left is not, the inner and the right joiner emit nothing while the left and the
  outer joiner emit the product (one row per left row); when the left side is the sentinel
  and the right is not, the inner and the left joiner emit nothing while the right and the
  outer joiner emit the product.
\<close>

theorem joiner_strategies:
  "(\<not> eq_empty_row_list rows_a \<and> \<not> eq_empty_row_list rows_b \<longrightarrow>
      joiner_call j keys rows_a rows_b
        = merged_product j keys (iter_rows rows_a) (iter_rows rows_b))
   \<and> (\<not> eq_empty_row_list rows_a \<longrightarrow>
        joiner_call (InnerJoiner sa sb) keys rows_a (PyList [[]]) = []
      \<and> joiner_call (RightJoiner sa sb) keys rows_a (PyList [[]]) = []
      \<and> joiner_call (LeftJoiner sa sb) keys rows_a (PyList [[]])
          = merged_product (LeftJoiner sa sb) keys (iter_rows rows_a) [[]]
      \<and> joiner_call (OuterJoiner sa sb) keys rows_a (PyList [[]])
          = merged_product (OuterJoiner sa sb) keys (iter_rows rows_a) [[]])
   \<and> (\<not> eq_empty_row_list rows_b \<longrightarrow>
        joiner_call (InnerJoiner sa sb) keys (PyList [[]]) rows_b = []
      \<and> joiner_call (LeftJoiner sa sb) keys (PyList [[]]) rows_b = []
      \<and> joiner_call (RightJoiner sa sb) keys (PyList [[]]) rows_b
          = merged_product (RightJoiner sa sb) keys [[]] (iter_rows rows_b)
      \<and> joiner_call (OuterJoiner sa sb) keys (PyList [[]]) rows_b
          = merged_product (OuterJoiner sa sb) keys [[]] (iter_rows rows_b))"
proof (intro conjI impI)
  assume "\<not> eq_empty_row_list rows_a \<and> \<not> eq_empty_row_list rows_b"
  then show "joiner_call j keys rows_a rows_b
      = merged_product j keys (iter_rows rows_a) (iter_rows rows_b)"
    by (simp add: joiner_call_present)
qed (simp_all add: eq_empty_row_list_def join_loops_True join_loops_False merged_product_def)

theorem joiner_strategies_witness:
  "\<not> eq_empty_row_list (Generator [[(''k'', IntV 1), (''x'', IntV 2)]])
   \<and> \<not> eq_empty_row_list (Generator [[(''k'', IntV 1), (''x'', IntV 3)]])
   \<and> joiner_call (InnerJoiner ''_1'' ''_2'') [''k'']
         (Generator [[(''k'', IntV 1), (''x'', IntV 2)]])
         (Generator [[(''k'', IntV 1), (''x'', IntV 3)]])
       = [[(''k'', IntV 1), (''x_1'', IntV 2), (''x_2'', IntV 3)]]
   \<and> joiner_call (LeftJoiner ''_1'' ''_2'') [''k'']
         (Generator [[(''k'', IntV 1), (''x'', IntV 2)]]) (PyList [[]])
       = [[(''k'', IntV 1), (''x'', IntV 2)]]
   \<and> joiner_call (RightJoiner ''_1'' ''_2'') [''k'']
         (Generator [[(''k'', IntV 1), (''x'', IntV 2)]]) (PyList [[]]) = []
   \<and> joiner_call (LeftJoiner ''_1'' ''_2'') [''k'']
         (PyList [[]]) (Generator [[(''k'', IntV 1), (''x'', IntV 3)]]) = []"
  using joiner_strategies [of "Generator [[(''k'', IntV 1), (''x'', IntV 2)]]"
      "Generator [[(''k'', IntV 1), (''x'', IntV 3)]]" "InnerJoiner ''_1'' ''_2''" "[''k'']"
      "''_1''" "''_2''"]
  by (simp add: eq_empty_row_list_def merged_product_def merge_two_dicts_by_keys_def
      merge_loops_def merge_a_step_def merge_b_step_def)

section \<open>The first loop of the join and rows without columns\<close>

lemmas join_eval_defs =
  Join_both.simps Join_left_rest.simps Join_right_rest.simps Join_call_def GroupsCreator_def truthy_def take_group_def run_group_generator_def
  update_generator_def group_iterator_def getitem_def merge_two_dicts_by_keys_def
  merge_loops_def merge_a_step_def merge_b_step_def join_loops_def eq_empty_row_list_def

text \<open>
  Claim C3. The claim: while both sides have a current group the join compares their key
  tuples, and on equal keys hands both groups to the joiner. The first loop of
  \<^verbatim>\<open>Join.__call__\<close> tests the truth value of \<^verbatim>\<open>first_group_element\<close> where the two
  other loops test \<^verbatim>\<open>is not None\<close>. With an empty key list and a left stream whose
  only row has no column, both sides have a current group with key tuple \<open>()\<close>, yet the
  first loop is skipped and each side is drained against \<^verbatim>\<open>[dict()]\<close>: the outer join
  emits two rows where the state machine of the specification emits one.
\<close>

theorem Join_skips_group_led_by_empty_row:
  "Join_call (OuterJoiner ''_1'' ''_2'') [] [[]] [[(''a'', IntV 1)]]
     = Inr [[], [(''a'', IntV 1)]]
   \<and> spec_Join (OuterJoiner ''_1'' ''_2'') [] [[]] [[(''a'', IntV 1)]]
     = [[(''a'', IntV 1)]]"
  by (simp add: join_eval_defs spec_Join_def key_tuple_def)

text \<open>
  Claim C9. The claim: with an empty key list and two non-empty streams the join emits the
  merged Cartesian product of the two streams in one joiner invocation. On the same input
  as above the inner join emits nothing, the product has one row: the first loop does not
  run when the first row of a stream has no column.
\<close>

theorem Join_empty_keys_empty_first_row:
  "Join_call (InnerJoiner ''_1'' ''_2'') [] [[]] [[(''a'', IntV 1)]] = Inr []
   \<and> joiner_call (InnerJoiner ''_1'' ''_2'') [] (Generator [[]]) (Generator [[(''a'', IntV 1)]])
     = [[(''a'', IntV 1)]]
   \<and> merged_product (InnerJoiner ''_1'' ''_2'') [] [[]] [[(''a'', IntV 1)]]
     = [[(''a'', IntV 1)]]"
  by (simp add: join_eval_defs merged_product_def)

section \<open>Reducers and the grouping keys\<close>

text \<open>
  Claim C7. The claim: every row a stock reducer emits holds all grouping-key columns.
  \<^verbatim>\<open>Sum\<close> builds its row from \<^verbatim>\<open>group_key[0]\<close> alone, where \<^verbatim>\<open>Count\<close> loops over
  the whole key tuple: on a group keyed by \<open>a\<close> and \<open>b\<close> the row of \<^verbatim>\<open>Sum\<close> has no
  column \<open>b\<close>, the row of \<^verbatim>\<open>Count\<close> on the same group has both.
\<close>

theorem Sum_drops_second_key:
  "Reduce_call (Sum ''v'') [''a'', ''b''] [[(''a'', IntV 1), (''b'', IntV 2), (''v'', IntV 3)]]
     = Inr [[(''a'', IntV 1), (''v'', IntV 3)]]
   \<and> map_of [(''a'', IntV 1), (''v'', IntV 3)] ''b'' = None
   \<and> Reduce_call (Count ''n'') [''a'', ''b''] [[(''a'', IntV 1), (''b'', IntV 2), (''v'', IntV 3)]]
     = Inr [[(''a'', IntV 1), (''b'', IntV 2), (''n'', IntV 1)]]"
  by (simp add: Reduce_call_def Reduce_loop.simps GroupsCreator_def run_group_generator_def
      update_generator_def
      group_iterator_def getitem_def Sum_call_def Count_call_def last_row_def)

section \<open>Splitting on whitespace\<close>










section \<open>Mappers and the row they receive\<close>

lemma in_place_frame:
  "a < length h \<Longrightarrow> in_place f h a = Inr (out, h') \<Longrightarrow>
   out = [a] \<and> length h' = length h \<and> (\<forall>b<length h. b \<noteq> a \<longrightarrow> h' ! b = h ! b)"
  by (auto simp: in_place_def split: sum.splits)

lemma mapper_call_in_place:
  "writes_in_place m \<Longrightarrow> \<exists>f. mapper_call m = in_place f"
  by (cases m) (auto simp: fun_eq_iff)

lemma mapper_call_frame:
  assumes "a < length h" and "mapper_call m h a = Inr (out, h')"
  shows "(writes_in_place m \<longrightarrow>
            out = [a] \<and> length h' = length h \<and> (\<forall>b<length h. b \<noteq> a \<longrightarrow> h' ! b = h ! b))
       \<and> (\<not> writes_in_place m \<longrightarrow>
            take (length h) h' = h \<and> (\<forall>b\<in>set out. b = a \<or> length h \<le> b))"
proof (cases "writes_in_place m")
  case True
  then obtain f where "mapper_call m = in_place f"
    using mapper_call_in_place by blast
  with assms in_place_frame [of a h f out h'] True show ?thesis by simp
next
  case False
  with assms show ?thesis
    by (cases m) (auto simp: fresh_def split: sum.splits if_splits)
qed

lemma Map_call_frame:
  "set as \<subseteq> {..<length h} \<Longrightarrow> Map_call m h as = Inr (outs, h') \<Longrightarrow>
     (writes_in_place m \<longrightarrow>
        outs = as \<and> length h' = length h \<and> (\<forall>b<length h. b \<notin> set as \<longrightarrow> h' ! b = h ! b))
   \<and> (\<not> writes_in_place m \<longrightarrow>
        take (length h) h' = h \<and> (\<forall>b\<in>set outs. b \<in> set as \<or> length h \<le> b))"
proof (induction as arbitrary: h outs h')
  case Nil
  then show ?case by simp
next
  case (Cons a as)
  from Cons.prems(2) obtain out h1 outs1 where
    call: "mapper_call m h a = Inr (out, h1)" and
    rest: "Map_call m h1 as = Inr (outs1, h')" and
    outs: "outs = out @ outs1"
    by (auto split: sum.splits prod.splits)
  from Cons.prems(1) have a: "a < length h" by simp
  note one = mapper_call_frame [OF a call]
  show ?case
  proof (cases "writes_in_place m")
    case True
    with one have len: "length h1 = length h" and out: "out = [a]"
      and same: "\<forall>b<length h. b \<noteq> a \<longrightarrow> h1 ! b = h ! b" by auto
    from Cons.prems(1) len have "set as \<subseteq> {..<length h1}" by simp
    from Cons.IH [OF this rest] True
    have "outs1 = as" "length h' = length h1" "\<forall>b<length h1. b \<notin> set as \<longrightarrow> h' ! b = h1 ! b"
      by auto
    with True len out outs same show ?thesis by auto
  next
    case False
    with one have tk: "take (length h) h1 = h" and fr: "\<forall>b\<in>set out. b = a \<or> length h \<le> b"
      by auto
    have le: "length h \<le> length h1"
    proof -
      from tk have "length (take (length h) h1) = length h" by simp
      then show ?thesis by simp
    qed
    with Cons.prems(1) have "set as \<subseteq> {..<length h1}" by auto
    from Cons.IH [OF this rest] False
    have tk1: "take (length h1) h' = h1" and fr1: "\<forall>b\<in>set outs1. b \<in> set as \<or> length h1 \<le> b"
      by auto
    have "take (length h) h' = take (length h) (take (length h1) h')"
      using le by (simp add: min_absorb1)
    with tk tk1 have "take (length h) h' = h" by simp
    moreover have "\<forall>b\<in>set outs. b \<in> set (a # as) \<or> length h \<le> b"
      using fr fr1 le outs by auto
    ultimately show ?thesis using False by simp
  qed
qed

lemma Product_loop_writes:
  "Product_loop result_column cs (AList.update result_column p row) = Inr r \<Longrightarrow>
   \<exists>v. r = AList.update result_column v row"
proof (induction cs arbitrary: p)
  case Nil
  then show ?case by auto
next
  case (Cons c cs)
  from Cons.prems obtain q where
    "Product_loop result_column cs
       (AList.update result_column q (AList.update result_column p row)) = Inr r"
    by (auto split: sum.splits)
  then have "Product_loop result_column cs (AList.update result_column q row) = Inr r"
    by (simp add: AList.update_last)
  then show ?case by (rule Cons.IH)
qed

lemma row_after_writes:
  assumes "writes_in_place m" and "row_after m row = Inr r"
  shows "\<exists>c v. written_column m = Some c \<and> r = AList.update c v row"
proof (cases m)
  case (Product cs result_column)
  with assms(2) show ?thesis
    using Product_loop_writes [of result_column cs "IntV 1" row r]
    by (simp add: Product_row_def)
next
  case (FilterPunctuation column)
  with assms(2) show ?thesis
    by (auto simp: FilterPunctuation_row_def split: val.splits)
next
  case (LowerCase column)
  with assms(2) show ?thesis
    by (auto simp: LowerCase_row_def split: val.splits)
next
  case (InverseFrequency ar c1 c2 res)
  with assms(2) show ?thesis
    by (auto simp: InverseFrequency_row_def split: sum.splits)
next
  case (CalculateDistance ar c1 c2 res)
  with assms(2) show ?thesis
    by (auto simp: CalculateDistance_row_def split: sum.splits)
next
  case (WeekDay ar c res)
  with assms(2) show ?thesis
    by (auto simp: WeekDay_row_def split: sum.splits)
next
  case (Hour ar c res)
  with assms(2) show ?thesis
    by (auto simp: Hour_row_def split: sum.splits)
next
  case (TimeDelta ar c1 c2 res)
  with assms(2) show ?thesis
    by (auto simp: TimeDelta_row_def split: sum.splits)
next
  case (Speed ar c1 c2 res)
  with assms(2) show ?thesis
    by (auto simp: Speed_row_def split: sum.splits)
qed (use assms(1) in simp_all)

lemma mapper_call_row_after:
  "writes_in_place m \<Longrightarrow> mapper_call m h a = in_place (row_after m) h a"
  by (cases m) (simp_all add: in_place_def)

lemma mapper_call_writes:
  assumes "writes_in_place m" and "a < length h" and "mapper_call m h a = Inr (out, h')"
  shows "row_after m (h ! a) = Inr (h' ! a)
       \<and> (\<exists>c v. written_column m = Some c \<and> h' ! a = AList.update c v (h ! a))"
proof -
  from assms(3) mapper_call_row_after [OF assms(1), of h a]
  obtain r where r: "row_after m (h ! a) = Inr r" and h': "h' = h[a := r]"
    by (auto simp: in_place_def split: sum.splits)
  from h' assms(2) have "h' ! a = r" by simp
  with r row_after_writes [OF assms(1) r] show ?thesis by simp
qed

lemma Map_call_writes:
  "writes_in_place m \<Longrightarrow> set as \<subseteq> {..<length h} \<Longrightarrow> distinct as \<Longrightarrow>
   Map_call m h as = Inr (outs, h') \<Longrightarrow>
   \<forall>a\<in>set as. row_after m (h ! a) = Inr (h' ! a)
     \<and> (\<exists>c v. written_column m = Some c \<and> h' ! a = AList.update c v (h ! a))"
proof (induction as arbitrary: h outs h')
  case Nil
  show ?case by simp
next
  case (Cons a as)
  from Cons.prems(4) obtain out h1 outs1 where
    call: "mapper_call m h a = Inr (out, h1)" and
    rest: "Map_call m h1 as = Inr (outs1, h')"
    by (auto split: sum.splits prod.splits)
  from Cons.prems(2) have a: "a < length h" by simp
  from mapper_call_frame [OF a call] Cons.prems(1)
  have len: "length h1 = length h" and same: "\<forall>b<length h. b \<noteq> a \<longrightarrow> h1 ! b = h ! b"
    by auto
  from Cons.prems(2) len have sub: "set as \<subseteq> {..<length h1}" by simp
  from Cons.prems(3) have d: "distinct as" and na: "a \<notin> set as" by simp_all
  note first = mapper_call_writes [OF Cons.prems(1) a call]
  from Map_call_frame [OF sub rest] Cons.prems(1)
  have keep: "\<forall>b<length h1. b \<notin> set as \<longrightarrow> h' ! b = h1 ! b" by blast
  with na a len have "h' ! a = h1 ! a" by simp
  with first have head: "row_after m (h ! a) = Inr (h' ! a)
      \<and> (\<exists>c v. written_column m = Some c \<and> h' ! a = AList.update c v (h ! a))"
    by simp
  have tail: "\<forall>b\<in>set as. row_after m (h ! b) = Inr (h' ! b)
      \<and> (\<exists>c v. written_column m = Some c \<and> h' ! b = AList.update c v (h ! b))"
  proof
    fix b
    assume b: "b \<in> set as"
    with na have "b \<noteq> a" by auto
    moreover from b Cons.prems(2) have "b < length h" by auto
    ultimately have eq: "h1 ! b = h ! b" using same by simp
    from Cons.IH [OF Cons.prems(1) sub d rest] b
    have "row_after m (h1 ! b) = Inr (h' ! b)
      \<and> (\<exists>c v. written_column m = Some c \<and> h' ! b = AList.update c v (h1 ! b))"
      by blast
    then show "row_after m (h ! b) = Inr (h' ! b)
      \<and> (\<exists>c v. written_column m = Some c \<and> h' ! b = AList.update c v (h ! b))"
      unfolding eq .
  qed
  from head tail show ?case by simp
qed

text \<open>
  Claim C1, as the code has it. \<^verbatim>\<open>Map\<close> runs over input rows that are objects of the
  heap. When the mapper is \<^verbatim>\<open>DummyMapper\<close>, \<^verbatim>\<open>Filter\<close>, \<^verbatim>\<open>Split\<close> or \<^verbatim>\<open>Project\<close>,
  every object that was in the heap holds afterwards what it held before, and each
  yielded row is an input row or a new object. Every other stock mapper writes into the
  row it receives and yields that same object: the output of \<^verbatim>\<open>Map\<close> is the list of
  its input objects, no object is made, the objects outside the input keep their content,
  and each input object (the input rows being different objects) holds afterwards what
  the body of the mapper computes from its content before, which is that content with
  the mapper's result column assigned.
\<close>

theorem Map_frame:
  "set as \<subseteq> {..<length h} \<Longrightarrow> Map_call m h as = Inr (outs, h') \<Longrightarrow>
     (writes_in_place m \<longrightarrow>
        outs = as \<and> length h' = length h \<and> (\<forall>b<length h. b \<notin> set as \<longrightarrow> h' ! b = h ! b)
        \<and> (distinct as \<longrightarrow>
             (\<forall>a\<in>set as. row_after m (h ! a) = Inr (h' ! a)
                \<and> (\<exists>c v. written_column m = Some c \<and> h' ! a = AList.update c v (h ! a)))))
   \<and> (\<not> writes_in_place m \<longrightarrow>
        take (length h) h' = h \<and> (\<forall>b\<in>set outs. b \<in> set as \<or> length h \<le> b))"
  using Map_call_frame [of as h m outs h'] Map_call_writes [of m as h outs h'] by blast

theorem Map_frame_witness:
  "set [0::nat] \<subseteq> {..<length [[(''t'', StrV ''a b'')]]}
   \<and> Map_call (Split ''t'' None) [[(''t'', StrV ''a b'')]] [0]
       = Inr ([1, 2], [[(''t'', StrV ''a b'')], [(''t'', StrV ''a'')], [(''t'', StrV ''b'')]])
   \<and> \<not> writes_in_place (Split ''t'' None)
   \<and> take (length [[(''t'', StrV ''a b'')]])
        [[(''t'', StrV ''a b'')], [(''t'', StrV ''a'')], [(''t'', StrV ''b'')]]
       = [[(''t'', StrV ''a b'')]]
   \<and> Map_call (LowerCase ''t'') [[(''t'', StrV ''A'')], [(''t'', StrV ''B'')]] [0]
       = Inr ([0], [[(''t'', StrV ''a'')], [(''t'', StrV ''B'')]])
   \<and> writes_in_place (LowerCase ''t'')
   \<and> [[(''t'', StrV ''a'')], [(''t'', StrV ''B'')]] ! 1
       = [[(''t'', StrV ''A'')], [(''t'', StrV ''B'')]] ! 1
   \<and> row_after (LowerCase ''t'') [(''t'', StrV ''A'')] = Inr [(''t'', StrV ''a'')]"
proof -
  have h1: "set [0::nat] \<subseteq> {..<length [[(''t'', StrV ''a b'')]]}"
    by simp
  have c1: "Map_call (Split ''t'' None) [[(''t'', StrV ''a b'')]] [0]
      = Inr ([1, 2], [[(''t'', StrV ''a b'')], [(''t'', StrV ''a'')], [(''t'', StrV ''b'')]])"
    by (simp add: get_or_empty_def Split_rows_def split_def is_space_def fresh_def upt_rec)
  have n1: "\<not> writes_in_place (Split ''t'' None)"
    by simp
  from Map_frame [OF h1 c1] n1
  have t1: "take (length [[(''t'', StrV ''a b'')]])
        [[(''t'', StrV ''a b'')], [(''t'', StrV ''a'')], [(''t'', StrV ''b'')]]
       = [[(''t'', StrV ''a b'')]]"
    by blast
  have h2: "set [0::nat] \<subseteq> {..<length [[(''t'', StrV ''A'')], [(''t'', StrV ''B'')]]}"
    by simp
  have c2: "Map_call (LowerCase ''t'') [[(''t'', StrV ''A'')], [(''t'', StrV ''B'')]] [0]
      = Inr ([0], [[(''t'', StrV ''a'')], [(''t'', StrV ''B'')]])"
    by code_simp
  have n2: "writes_in_place (LowerCase ''t'')"
    by simp
  from Map_frame [OF h2 c2] n2
  have "\<forall>b<length [[(''t'', StrV ''A'')], [(''t'', StrV ''B'')]]. b \<notin> set [0::nat] \<longrightarrow>
        [[(''t'', StrV ''a'')], [(''t'', StrV ''B'')]] ! b
          = [[(''t'', StrV ''A'')], [(''t'', StrV ''B'')]] ! b"
    by blast
  then have t2: "[[(''t'', StrV ''a'')], [(''t'', StrV ''B'')]] ! 1
       = [[(''t'', StrV ''A'')], [(''t'', StrV ''B'')]] ! 1"
    by simp
  have d2: "distinct [0::nat]"
    by simp
  from Map_frame [OF h2 c2] n2 d2
  have "\<forall>a\<in>set [0::nat].
      row_after (LowerCase ''t'') ([[(''t'', StrV ''A'')], [(''t'', StrV ''B'')]] ! a)
        = Inr ([[(''t'', StrV ''a'')], [(''t'', StrV ''B'')]] ! a)"
    by blast
  then have t3: "row_after (LowerCase ''t'') [(''t'', StrV ''A'')] = Inr [(''t'', StrV ''a'')]"
    by simp
  show ?thesis using h1 c1 n1 t1 c2 n2 t2 t3 by blast
qed

text \<open>
  The claim as the specification states it, that no stock mapper changes the row it
  receives, fails for \<^verbatim>\<open>FilterPunctuation\<close>: the object handed in holds \<open>a!\<close> before
  the call and \<open>a\<close> after it, and the row yielded is that object.
\<close>

theorem FilterPunctuation_mutates_its_row:
  "Map_call (FilterPunctuation ''t'') [[(''t'', StrV ''a!'')]] [0]
     = Inr ([0], [[(''t'', StrV ''a'')]])
   \<and> [[(''t'', StrV ''a'')]] ! 0 \<noteq> [[(''t'', StrV ''a!'')]] ! 0"
  by (simp add: in_place_def FilterPunctuation_row_def get_or_empty_def strip_punctuation_def
      is_punctuation_def)

section \<open>Mappers on a row without the column they name\<close>

lemma Project_loop_missing:
  "column \<in> set cs \<Longrightarrow> map_of row column = None \<Longrightarrow>
   \<exists>c. Project_loop cs row result_row = Inl (KeyError c)"
proof (induction cs arbitrary: result_row)
  case Nil
  then show ?case by simp
next
  case (Cons c cs)
  then show ?case
    by (cases "map_of row c") (auto simp: getitem_def)
qed

lemma Product_loop_missing:
  "column \<in> set cs \<Longrightarrow> column \<noteq> result_column \<Longrightarrow> map_of row column = None \<Longrightarrow>
   \<exists>e. Product_loop result_column cs row = Inl e"
proof (induction cs arbitrary: row)
  case Nil
  then show ?case by simp
next
  case (Cons c cs)
  show ?case
  proof (cases "c = column")
    case True
    with Cons.prems show ?thesis by (auto simp: getitem_def split: sum.splits option.splits)
  next
    case False
    with Cons.prems have "column \<in> set cs" by simp
    moreover have "map_of (AList.update result_column p row) column = None" for p
      using Cons.prems by (simp add: update_conv')
    ultimately have "\<exists>e. Product_loop result_column cs (AList.update result_column p row) = Inl e" for p
      using Cons.IH Cons.prems(2) by blast
    then show ?thesis
      by (auto split: sum.splits)
  qed
qed

text \<open>
  Claim C6, as the code has it. On a row without the column named: \<^verbatim>\<open>FilterPunctuation\<close>
  and \<^verbatim>\<open>LowerCase\<close> read the empty string and set the column to it; \<^verbatim>\<open>Split\<close> reads
  the empty string and yields no row with the default separator and one row, the column
  empty, with a non-empty separator; \<^verbatim>\<open>Project\<close>, \<^verbatim>\<open>InverseFrequency\<close>,
  \<^verbatim>\<open>WeekDay\<close>, \<^verbatim>\<open>Hour\<close> and \<^verbatim>\<open>Speed\<close> raise \<open>KeyError\<close>,
  \<^verbatim>\<open>CalculateDistance\<close> and \<^verbatim>\<open>TimeDelta\<close> raise an error, and \<^verbatim>\<open>Product\<close> raises
  an error when the missing column is not its own result column.
\<close>

theorem missing_column:
  assumes "map_of row column = None"
  shows "FilterPunctuation_row column row = Inr (AList.update column (StrV []) row)
       \<and> LowerCase_row column row = Inr (AList.update column (StrV []) row)
       \<and> Split_rows column None row = Inr []
       \<and> (sep \<noteq> [] \<longrightarrow>
            Split_rows column (Some sep) row = Inr [AList.update column (StrV []) row])
       \<and> (column \<in> set cs \<longrightarrow> (\<exists>c. Project_row cs row = Inl (KeyError c)))
       \<and> (column \<in> set cs \<and> column \<noteq> result_column \<longrightarrow>
            (\<exists>e. Product_row cs result_column row = Inl e))
       \<and> (column = c1 \<or> column = c2 \<longrightarrow>
            (\<exists>c. InverseFrequency_row ar c1 c2 res row = Inl (KeyError c)))
       \<and> (column = c1 \<or> column = c2 \<longrightarrow> (\<exists>e. CalculateDistance_row ar c1 c2 res row = Inl e))
       \<and> WeekDay_row ar column res row = Inl (KeyError column)
       \<and> Hour_row ar column res row = Inl (KeyError column)
       \<and> (column = c1 \<or> column = c2 \<longrightarrow> (\<exists>e. TimeDelta_row ar c1 c2 res row = Inl e))
       \<and> (column = c1 \<or> column = c2 \<longrightarrow>
            (\<exists>c. Speed_row ar c1 c2 res row = Inl (KeyError c)))"
proof -
  have get: "get_or_empty row column = StrV []"
    using assms by (simp add: get_or_empty_def)
  have a: "FilterPunctuation_row column row = Inr (AList.update column (StrV []) row)"
    using get by (simp add: FilterPunctuation_row_def strip_punctuation_def)
  have b: "LowerCase_row column row = Inr (AList.update column (StrV []) row)"
    using get by (simp add: LowerCase_row_def lower_def)
  have c: "Split_rows column None row = Inr []"
    using get by (simp add: Split_rows_def split_def)
  have d: "sep \<noteq> [] \<longrightarrow>
      Split_rows column (Some sep) row = Inr [AList.update column (StrV []) row]"
    using get by (simp add: Split_rows_def split_def)
  have e: "column \<in> set cs \<longrightarrow> (\<exists>c. Project_row cs row = Inl (KeyError c))"
    using assms Project_loop_missing by (simp add: Project_row_def)
  have f: "column \<in> set cs \<and> column \<noteq> result_column \<longrightarrow>
      (\<exists>e. Product_row cs result_column row = Inl e)"
  proof
    assume h: "column \<in> set cs \<and> column \<noteq> result_column"
    then have "map_of (AList.update result_column (IntV 1) row) column = None"
      using assms by (simp add: update_conv')
    with h show "\<exists>e. Product_row cs result_column row = Inl e"
      unfolding Product_row_def using Product_loop_missing by blast
  qed
  have g: "column = c1 \<or> column = c2 \<longrightarrow>
      (\<exists>c. InverseFrequency_row ar c1 c2 res row = Inl (KeyError c))"
    using assms by (auto simp: InverseFrequency_row_def getitem_def split: option.splits)
  have h: "column = c1 \<or> column = c2 \<longrightarrow> (\<exists>e. CalculateDistance_row ar c1 c2 res row = Inl e)"
    using assms by (auto simp: CalculateDistance_row_def getitem_def split: option.splits sum.splits)
  have i: "WeekDay_row ar column res row = Inl (KeyError column)"
    using assms by (simp add: WeekDay_row_def getitem_def)
  have j: "Hour_row ar column res row = Inl (KeyError column)"
    using assms by (simp add: Hour_row_def getitem_def)
  have k: "column = c1 \<or> column = c2 \<longrightarrow> (\<exists>e. TimeDelta_row ar c1 c2 res row = Inl e)"
    using assms by (auto simp: TimeDelta_row_def getitem_def split: option.splits sum.splits)
  have l: "column = c1 \<or> column = c2 \<longrightarrow>
      (\<exists>c. Speed_row ar c1 c2 res row = Inl (KeyError c))"
    using assms by (auto simp: Speed_row_def getitem_def split: option.splits)
  show ?thesis
    using a b c d e f g h i j k l by blast
qed

theorem missing_column_witness:
  "map_of [(''x'', IntV 1)] ''t'' = None
   \<and> FilterPunctuation_row ''t'' [(''x'', IntV 1)] = Inr [(''x'', IntV 1), (''t'', StrV [])]
   \<and> Split_rows ''t'' (Some '','') [(''x'', IntV 1)] = Inr [[(''x'', IntV 1), (''t'', StrV [])]]
   \<and> Project_row [''x'', ''t''] [(''x'', IntV 1)] = Inl (KeyError ''t'')
   \<and> Product_row [''x'', ''t''] ''p'' [(''x'', IntV 1)] = Inl (KeyError ''t'')"
proof -
  have h: "map_of [(''x'', IntV 1)] ''t'' = None"
    by simp
  from missing_column [OF h]
  have "FilterPunctuation_row ''t'' [(''x'', IntV 1)]
      = Inr (AList.update ''t'' (StrV []) [(''x'', IntV 1)])"
    by blast
  then have a: "FilterPunctuation_row ''t'' [(''x'', IntV 1)]
      = Inr [(''x'', IntV 1), (''t'', StrV [])]"
    by simp
  from missing_column [OF h, of "'',''"]
  have "Split_rows ''t'' (Some '','') [(''x'', IntV 1)]
      = Inr [AList.update ''t'' (StrV []) [(''x'', IntV 1)]]"
    by simp
  then have d: "Split_rows ''t'' (Some '','') [(''x'', IntV 1)]
      = Inr [[(''x'', IntV 1), (''t'', StrV [])]]"
    by simp
  have e: "Project_row [''x'', ''t''] [(''x'', IntV 1)] = Inl (KeyError ''t'')"
    by (simp add: Project_row_def getitem_def)
  have f: "Product_row [''x'', ''t''] ''p'' [(''x'', IntV 1)] = Inl (KeyError ''t'')"
    by (simp add: Product_row_def getitem_def)
  show ?thesis using h a d e f by blast
qed

text \<open>
  Two rows without the column named: \<^verbatim>\<open>Product\<close> whose only factor is its own result
  column raises nothing, since it sets that column to 1 before it reads it; \<^verbatim>\<open>Split\<close>
  with the empty separator reads the empty string and fails on \<^verbatim>\<open>"".split("")\<close>.
\<close>

theorem missing_column_Product_result_and_Split_empty_separator:
  "map_of [] ''p'' = None
   \<and> Product_row [''p''] ''p'' [] = Inr [(''p'', IntV 1)]
   \<and> map_of [] ''t'' = None
   \<and> Split_rows ''t'' (Some []) [] = Inl ValueError"
  by (simp add: Product_row_def getitem_def Split_rows_def split_def get_or_empty_def)

section \<open>The groups of a stream\<close>

lemma key_values_tuple:
  "key_values ks row = Inr vs \<Longrightarrow> key_tuple ks row = map Some vs"
  by (induction ks arbitrary: vs)
    (auto simp: key_tuple_def getitem_def split: option.splits sum.splits)

lemma key_values_has_keys:
  "has_keys ks row \<Longrightarrow> \<exists>vs. key_values ks row = Inr vs"
  by (induction ks) (auto simp: has_keys_def getitem_def)

lemma key_values_missing:
  "\<not> has_keys ks row \<Longrightarrow> \<exists>k. key_values ks row = Inl (KeyError k)"
proof (induction ks)
  case Nil
  then show ?case by (simp add: has_keys_def)
next
  case (Cons k ks)
  show ?case
  proof (cases "map_of row k")
    case None
    then show ?thesis by (auto simp: getitem_def)
  next
    case (Some v)
    with Cons.prems have "\<not> has_keys ks row" by (auto simp: has_keys_def)
    from Cons.IH [OF this] obtain k' where "key_values ks row = Inl (KeyError k')" by blast
    with Some show ?thesis by (simp add: getitem_def)
  qed
qed

lemma group_loop_run:
  assumes "\<forall>r\<in>set rs. has_keys ks r"
  shows "\<exists>gkv1 fge rest.
           group_loop ks gkv rs
             = Inr (takeWhile (\<lambda>s. key_tuple ks s = map Some gkv) rs, gkv1, fge, rest)
         \<and> (case fge of None \<Rightarrow> [] | Some f \<Rightarrow> f # rest)
             = dropWhile (\<lambda>s. key_tuple ks s = map Some gkv) rs
         \<and> (case fge of None \<Rightarrow> rest = [] | Some f \<Rightarrow> key_values ks f = Inr gkv1)"
  using assms
proof (induction rs)
  case Nil
  show ?case by simp
next
  case (Cons r rs)
  then obtain vs where vs: "key_values ks r = Inr vs"
    using key_values_has_keys by fastforce
  note kt = key_values_tuple [OF vs]
  show ?case
  proof (cases "vs = gkv")
    case True
    with Cons vs kt show ?thesis by auto
  next
    case False
    then have "map Some vs \<noteq> map Some gkv"
      by (simp add: inj_map_eq_map)
    with False vs kt show ?thesis by simp
  qed
qed

lemma GroupsCreator_ok:
  "\<forall>r\<in>set rows. has_keys ks r \<Longrightarrow>
   \<exists>gc. GroupsCreator rows ks = Inr gc \<and> creator_ok ks gc \<and> pending gc = rows"
proof (cases rows)
  case Nil
  then show ?thesis by (simp add: GroupsCreator_def creator_ok_def pending_def)
next
  case (Cons r rs)
  assume "\<forall>r\<in>set rows. has_keys ks r"
  with Cons obtain vs where "key_values ks r = Inr vs"
    using key_values_has_keys by fastforce
  with Cons \<open>\<forall>r\<in>set rows. has_keys ks r\<close> show ?thesis
    by (simp add: GroupsCreator_def creator_ok_def pending_def)
qed

lemma take_group_run:
  assumes ok: "creator_ok ks gc" and f: "first_group_element gc = Some f"
  shows "\<exists>gc1. take_group gc
             = Inr (f # takeWhile (\<lambda>s. key_tuple ks s = key_tuple ks f) (rows_generator gc), gc1)
         \<and> creator_ok ks gc1
         \<and> pending gc1 = dropWhile (\<lambda>s. key_tuple ks s = key_tuple ks f) (rows_generator gc)"
proof -
  from ok f have kv: "key_values ks f = Inr (group_key_values gc)"
    and keys: "creator_keys gc = ks" and fin: "\<not> generator_finished gc"
    and has: "\<forall>r\<in>set (rows_generator gc). has_keys ks r"
    by (auto simp: creator_ok_def pending_def)
  note kt = key_values_tuple [OF kv]
  from group_loop_run [OF has, of "group_key_values gc"] obtain gkv1 fge rest where
    loop: "group_loop ks (group_key_values gc) (rows_generator gc)
        = Inr (takeWhile (\<lambda>s. key_tuple ks s = key_tuple ks f) (rows_generator gc), gkv1, fge, rest)"
    and pend: "(case fge of None \<Rightarrow> [] | Some f \<Rightarrow> f # rest)
        = dropWhile (\<lambda>s. key_tuple ks s = key_tuple ks f) (rows_generator gc)"
    and inv: "(case fge of None \<Rightarrow> rest = [] | Some f \<Rightarrow> key_values ks f = Inr gkv1)"
    unfolding kt by blast
  let ?gc1 = "gc\<lparr>rows_generator := rest, group_key_values := gkv1,
                 first_group_element := fge, generator_finished := False\<rparr>"
  have run: "take_group gc
      = Inr (f # takeWhile (\<lambda>s. key_tuple ks s = key_tuple ks f) (rows_generator gc), ?gc1)"
    using f fin keys loop
    by (simp add: take_group_def run_group_generator_def update_generator_def group_iterator_def)
  have p: "pending ?gc1 = dropWhile (\<lambda>s. key_tuple ks s = key_tuple ks f) (rows_generator gc)"
    using pend by (cases fge) (simp_all add: pending_def)
  have "\<forall>r\<in>set (pending ?gc1). has_keys ks r"
    unfolding p using has by (auto dest: set_dropWhileD)
  then have "creator_ok ks ?gc1"
    using keys inv by (auto simp: creator_ok_def split: option.splits)
  with run p show ?thesis by blast
qed

lemma groups_loop_spec:
  "creator_ok ks gc \<Longrightarrow> groups_loop gc = Inr (map snd (spec_groups ks (pending gc)))"
proof (induction "length (pending gc)" arbitrary: gc rule: less_induct)
  case less
  show ?case
  proof (cases "first_group_element gc")
    case None
    then show ?thesis by (simp add: groups_loop.simps pending_def)
  next
    case (Some f)
    from take_group_run [OF less.prems Some] obtain gc1 where
      run: "take_group gc
          = Inr (f # takeWhile (\<lambda>s. key_tuple ks s = key_tuple ks f) (rows_generator gc), gc1)"
      and ok1: "creator_ok ks gc1"
      and p1: "pending gc1 = dropWhile (\<lambda>s. key_tuple ks s = key_tuple ks f) (rows_generator gc)"
      by blast
    have "length (pending gc1) < length (pending gc)"
      using p1 Some length_dropWhile_le [of "\<lambda>s. key_tuple ks s = key_tuple ks f" "rows_generator gc"]
      by (simp add: pending_def)
    from less.hyps [OF this ok1]
    have rec: "groups_loop gc1 = Inr (map snd (spec_groups ks (pending gc1)))" .
    from run obtain ys gcm where
      r1: "run_group_generator gc = Inr (ys, gcm)" and r2: "update_generator gcm = Inr gc1"
      and ys: "ys = f # takeWhile (\<lambda>s. key_tuple ks s = key_tuple ks f) (rows_generator gc)"
      by (auto simp: take_group_def split: sum.splits prod.splits)
    show ?thesis
      using Some r1 r2 ys rec p1
      by (subst groups_loop.simps) (simp add: pending_def)
  qed
qed

section \<open>The groups the iterator produces\<close>

lemma concat_spec_groups: "concat (map snd (spec_groups ks rows)) = rows"
  by (induction ks rows rule: spec_groups.induct) simp_all

lemma spec_groups_runs:
  "(k, g) \<in> set (spec_groups ks rows) \<Longrightarrow> g \<noteq> [] \<and> (\<forall>r\<in>set g. key_tuple ks r = k)"
proof (induction ks rows rule: spec_groups.induct)
  case (1 ks)
  then show ?case by simp
next
  case (2 ks r rs)
  let ?P = "\<lambda>s. key_tuple ks s = key_tuple ks r"
  from "2.prems" have "(k, g) = (key_tuple ks r, r # takeWhile ?P rs)
      \<or> (k, g) \<in> set (spec_groups ks (dropWhile ?P rs))"
    by simp
  then show ?case
  proof
    assume "(k, g) = (key_tuple ks r, r # takeWhile ?P rs)"
    then have k: "k = key_tuple ks r" and g: "g = r # takeWhile ?P rs" by simp_all
    have ne: "g \<noteq> []" unfolding g by simp
    have "key_tuple ks s = k" if "s \<in> set g" for s
    proof -
      from that have "s = r \<or> s \<in> set (takeWhile ?P rs)" unfolding g by simp
      then show ?thesis
      proof
        assume "s = r"
        then show ?thesis unfolding k by (rule arg_cong)
      next
        assume "s \<in> set (takeWhile ?P rs)"
        then show ?thesis unfolding k by (rule set_takeWhileD [THEN conjunct2])
      qed
    qed
    with ne show ?thesis by blast
  next
    assume "(k, g) \<in> set (spec_groups ks (dropWhile ?P rs))"
    then show ?thesis by (rule "2.IH")
  qed
qed

lemma remdups_adj_dropWhile:
  "remdups_adj (x # xs) = x # remdups_adj (dropWhile (\<lambda>y. y = x) xs)"
  by (induction xs) auto

lemma spec_groups_keys:
  "map fst (spec_groups ks rows) = remdups_adj (map (key_tuple ks) rows)"
proof (induction ks rows rule: spec_groups.induct)
  case (1 ks)
  show ?case by simp
next
  case (2 ks r rs)
  have "remdups_adj (map (key_tuple ks) (r # rs))
      = key_tuple ks r # remdups_adj (dropWhile (\<lambda>y. y = key_tuple ks r) (map (key_tuple ks) rs))"
    by (simp add: remdups_adj_dropWhile)
  also have "dropWhile (\<lambda>y. y = key_tuple ks r) (map (key_tuple ks) rs)
      = map (key_tuple ks) (dropWhile (\<lambda>s. key_tuple ks s = key_tuple ks r) rs)"
    by (simp add: dropWhile_map comp_def)
  finally show ?case using 2 by simp
qed

lemma removeAll_idem: "removeAll x (removeAll x xs) = removeAll x xs"
  by (induction xs) auto

lemma first_occurrences_remdups_adj:
  "first_occurrences (remdups_adj xs) = first_occurrences xs"
proof (induction xs rule: remdups_adj.induct)
  case 1
  show ?case by simp
next
  case (2 x)
  show ?case by simp
next
  case (3 x y xs)
  show ?case
  proof (cases "x = y")
    case True
    with 3 show ?thesis by (simp add: removeAll_idem)
  next
    case False
    with 3 show ?thesis by simp
  qed
qed

lemma set_first_occurrences: "set (first_occurrences xs) = set xs"
  by (induction xs) auto

lemma first_occurrences_distinct: "distinct xs \<Longrightarrow> first_occurrences xs = xs"
  by (induction xs) (auto simp: set_first_occurrences)


lemma all_groups_spec:
  assumes "\<forall>r\<in>set rows. has_keys ks r"
  shows "all_groups ks rows = Inr (map snd (spec_groups ks rows))"
proof -
  from GroupsCreator_ok [OF assms] obtain gc where
    "GroupsCreator rows ks = Inr gc" "creator_ok ks gc" "pending gc = rows"
    by blast
  then show ?thesis
    using groups_loop_spec [of ks gc] by (simp add: all_groups_def)
qed

text \<open>
  Claim C2, as the code has it. On a stream whose rows all have the key columns the
  grouping iterator does not fail, and its groups are the maximal runs of consecutive rows
  with one key tuple: concatenated they are the stream itself, so each row is yielded
  exactly once; no group is empty; the key tuples of the groups are those of the rows with
  adjacent repetitions dropped, so they come in the order in which the key tuples first
  appear, and when no key tuple comes back after another one (as in a sorted stream) the
  groups are one per key tuple in that order. An empty stream has no group.
\<close>

theorem grouping_iterator:
  assumes "\<forall>r\<in>set rows. has_keys ks r"
  shows "all_groups ks rows = Inr (map snd (spec_groups ks rows))
       \<and> concat (map snd (spec_groups ks rows)) = rows
       \<and> (\<forall>(k, g)\<in>set (spec_groups ks rows). g \<noteq> [] \<and> (\<forall>r\<in>set g. key_tuple ks r = k))
       \<and> map fst (spec_groups ks rows) = remdups_adj (map (key_tuple ks) rows)
       \<and> first_occurrences (map fst (spec_groups ks rows))
           = first_occurrences (map (key_tuple ks) rows)
       \<and> (distinct (map fst (spec_groups ks rows)) \<longrightarrow>
            map fst (spec_groups ks rows) = first_occurrences (map (key_tuple ks) rows))
       \<and> all_groups ks [] = Inr []"
proof -
  have a: "all_groups ks rows = Inr (map snd (spec_groups ks rows))"
    using assms by (rule all_groups_spec)
  have c: "\<forall>(k, g)\<in>set (spec_groups ks rows). g \<noteq> [] \<and> (\<forall>r\<in>set g. key_tuple ks r = k)"
    using spec_groups_runs by fastforce
  have d: "first_occurrences (map fst (spec_groups ks rows))
      = first_occurrences (map (key_tuple ks) rows)"
    by (simp add: spec_groups_keys first_occurrences_remdups_adj)
  have e: "distinct (map fst (spec_groups ks rows)) \<longrightarrow>
      map fst (spec_groups ks rows) = first_occurrences (map (key_tuple ks) rows)"
    using d first_occurrences_distinct by metis
  have f: "all_groups ks [] = Inr []"
    by (simp add: all_groups_def GroupsCreator_def groups_loop.simps)
  show ?thesis
    using a c d e f concat_spec_groups [of ks rows] spec_groups_keys [of ks rows] by blast
qed

lemmas groups_eval_defs =
  all_groups_def groups_loop.simps GroupsCreator_def run_group_generator_def
  update_generator_def group_iterator_def getitem_def

theorem grouping_iterator_witness:
  "all_groups [''k'']
        [[(''k'', IntV 1), (''v'', IntV 5)], [(''k'', IntV 1), (''v'', IntV 6)],
         [(''k'', IntV 2), (''v'', IntV 7)]]
       = Inr [[[(''k'', IntV 1), (''v'', IntV 5)], [(''k'', IntV 1), (''v'', IntV 6)]],
              [[(''k'', IntV 2), (''v'', IntV 7)]]]
   \<and> map fst (spec_groups [''k'']
        [[(''k'', IntV 1), (''v'', IntV 5)], [(''k'', IntV 1), (''v'', IntV 6)],
         [(''k'', IntV 2), (''v'', IntV 7)]])
       = first_occurrences [[Some (IntV 1)], [Some (IntV 1)], [Some (IntV 2)]]"
proof -
  let ?rows = "[[(''k'', IntV 1), (''v'', IntV 5)], [(''k'', IntV 1), (''v'', IntV 6)],
         [(''k'', IntV 2), (''v'', IntV 7)]]"
  have h1: "has_keys [''k''] [(''k'', IntV 1), (''v'', IntV 5)]"
    and h2: "has_keys [''k''] [(''k'', IntV 1), (''v'', IntV 6)]"
    and h3: "has_keys [''k''] [(''k'', IntV 2), (''v'', IntV 7)]"
    by (simp_all add: has_keys_def)
  then have h: "\<forall>r\<in>set ?rows. has_keys [''k''] r" by simp
  have sg: "spec_groups [''k''] ?rows
      = [([Some (IntV 1)], [[(''k'', IntV 1), (''v'', IntV 5)], [(''k'', IntV 1), (''v'', IntV 6)]]),
         ([Some (IntV 2)], [[(''k'', IntV 2), (''v'', IntV 7)]])]"
    by (simp add: key_tuple_def)
  have dist: "distinct (map fst (spec_groups [''k''] ?rows))"
    unfolding sg by simp
  from grouping_iterator [OF h] dist
  have a: "all_groups [''k''] ?rows = Inr (map snd (spec_groups [''k''] ?rows))"
    and e: "map fst (spec_groups [''k''] ?rows) = first_occurrences (map (key_tuple [''k'']) ?rows)"
    by blast+
  from a have a': "all_groups [''k''] ?rows
       = Inr [[[(''k'', IntV 1), (''v'', IntV 5)], [(''k'', IntV 1), (''v'', IntV 6)]],
              [[(''k'', IntV 2), (''v'', IntV 7)]]]"
    unfolding sg by simp
  from e have e': "map fst (spec_groups [''k''] ?rows)
       = first_occurrences [[Some (IntV 1)], [Some (IntV 1)], [Some (IntV 2)]]"
    by (simp add: key_tuple_def)
  show ?thesis using a' e' by blast
qed

text \<open>
  A row without the key column ends the run with \<open>KeyError\<close>, and is in no group; and on
  a stream that is not sorted a key tuple that comes back starts a group of its own, so
  that there are three groups for two key tuples.
\<close>

theorem grouping_iterator_KeyError_and_unsorted:
  "all_groups [''k''] [[(''k'', IntV 1)], [(''x'', IntV 2)]] = Inl (KeyError ''k'')
   \<and> all_groups [''k''] [[(''k'', IntV 1)], [(''k'', IntV 2)], [(''k'', IntV 1)]]
       = Inr [[[(''k'', IntV 1)]], [[(''k'', IntV 2)]], [[(''k'', IntV 1)]]]
   \<and> first_occurrences [[Some (IntV 1)], [Some (IntV 2)], [Some (IntV 1)]]
       = [[Some (IntV 1)], [Some (IntV 2)]]"
  by (simp add: groups_eval_defs)

section \<open>Joining streams that share no key\<close>

lemma compare_key_values_same_kind:
  "list_all2 same_kind xs ys \<Longrightarrow>
   \<exists>a b. compare_key_values xs ys = Inr (a, b) \<and> (a = b \<longleftrightarrow> xs = ys)"
proof (induction xs ys rule: list_all2_induct)
  case Nil
  show ?case by simp
next
  case (Cons x xs y ys)
  then obtain a b where rec: "compare_key_values xs ys = Inr (a, b)" "a = b \<longleftrightarrow> xs = ys"
    by blast
  show ?case
  proof (cases x)
    case (IntV i)
    with Cons.hyps obtain j where y: "y = IntV j" by (cases y) auto
    show ?thesis using IntV y rec by (cases i j rule: linorder_cases) auto
  next
    case (StrV s)
    with Cons.hyps obtain t where y: "y = StrV t" by (cases y) auto
    show ?thesis
    proof (cases s t rule: linorder_cases)
      case less
      then have "s \<noteq> t" by auto
      with less show ?thesis using StrV y by simp
    next
      case equal
      then show ?thesis using StrV y rec by simp
    next
      case greater
      then have "\<not> s < t" "s \<noteq> t" by (auto dest: less_not_sym)
      with greater show ?thesis using StrV y by simp
    qed
  qed
qed

lemma key_values_comparable:
  "comparable_rows ks l r \<Longrightarrow> key_values ks l = Inr xs \<Longrightarrow> key_values ks r = Inr ys \<Longrightarrow>
   list_all2 same_kind xs ys"
proof (induction ks arbitrary: xs ys)
  case Nil
  then show ?case by simp
next
  case (Cons k ks)
  from Cons.prems(1) have rest: "comparable_rows ks l r"
    by (simp add: comparable_rows_def)
  from Cons.prems(1) obtain u v where uv: "map_of l k = Some u" "map_of r k = Some v" "same_kind u v"
    by (auto simp: comparable_rows_def split: option.splits)
  from Cons.prems(2) uv obtain xs' where xs: "key_values ks l = Inr xs'" "xs = u # xs'"
    by (auto simp: getitem_def split: sum.splits)
  from Cons.prems(3) uv obtain ys' where ys: "key_values ks r = Inr ys'" "ys = v # ys'"
    by (auto simp: getitem_def split: sum.splits)
  from Cons.IH [OF rest xs(1) ys(1)] uv(3) xs(2) ys(2) show ?case by simp
qed

lemma update_new_column:
  "k \<notin> fst ` set al \<Longrightarrow> AList.update k v al = al @ [(k, v)]"
  by (induction al) auto

lemma fold_merge_a_step_alone:
  "distinct (map fst (acc @ r)) \<Longrightarrow>
   fold (merge_a_step [] suffix_a suffix_b ks) r acc = acc @ r"
proof (induction r arbitrary: acc)
  case Nil
  show ?case by simp
next
  case (Cons kv r)
  obtain k v where kv: "kv = (k, v)" by (cases kv)
  from Cons.prems kv have new: "k \<notin> fst ` set acc" by auto
  from Cons.prems kv have "distinct (map fst ((acc @ [(k, v)]) @ r))" by simp
  from Cons.IH [OF this] show ?case
    using kv new by (simp add: merge_a_step_def update_new_column)
qed

lemma merge_with_empty_row:
  "wf_row r \<Longrightarrow> merge_two_dicts_by_keys r [] suffix_a suffix_b ks = r"
  using fold_merge_a_step_alone [of "[]" r]
  by (simp add: merge_two_dicts_by_keys_def merge_loops_def wf_row_def)

lemma join_loops_with_empty_row:
  "\<forall>r\<in>set g. wf_row r \<Longrightarrow> join_loops True sa sb ks g [[]] = g"
  by (induction g) (simp_all add: join_loops_def merge_with_empty_row)

lemma LeftJoiner_left_only:
  "\<forall>r\<in>set g. wf_row r \<Longrightarrow> joiner_call (LeftJoiner sa sb) ks (Generator g) (PyList [[]]) = g"
  by (simp add: eq_empty_row_list_def join_loops_with_empty_row)

lemma LeftJoiner_right_only:
  "joiner_call (LeftJoiner sa sb) ks (PyList [[]]) (Generator g) = []"
  by (simp add: eq_empty_row_list_def join_loops_False)

lemma InnerJoiner_left_only:
  "joiner_call (InnerJoiner sa sb) ks (Generator g) (PyList [[]]) = []"
  by (simp add: eq_empty_row_list_def join_loops_False)

lemma InnerJoiner_right_only:
  "joiner_call (InnerJoiner sa sb) ks (PyList [[]]) (Generator g) = []"
  by (simp add: eq_empty_row_list_def join_loops_False)

lemma take_group_split:
  assumes "creator_ok ks gc" and "first_group_element gc = Some f"
  shows "\<exists>g gc1. take_group gc = Inr (g, gc1) \<and> creator_ok ks gc1
           \<and> g @ pending gc1 = pending gc \<and> length (pending gc1) < length (pending gc)"
proof -
  let ?P = "\<lambda>s. key_tuple ks s = key_tuple ks f"
  from take_group_run [OF assms] obtain gc1 where
    run: "take_group gc = Inr (f # takeWhile ?P (rows_generator gc), gc1)"
    and ok: "creator_ok ks gc1" and p: "pending gc1 = dropWhile ?P (rows_generator gc)"
    by blast
  have "(f # takeWhile ?P (rows_generator gc)) @ pending gc1 = pending gc"
    using assms(2) p by (simp add: pending_def)
  moreover have "length (pending gc1) < length (pending gc)"
    using assms(2) p length_dropWhile_le [of ?P "rows_generator gc"] by (simp add: pending_def)
  ultimately show ?thesis using run ok by blast
qed

lemma Join_both_no_match:
  assumes left_only:
      "\<And>g. \<forall>r\<in>set g. wf_row r \<Longrightarrow> joiner_call j ks (Generator g) (PyList [[]]) = e g"
    and right_only: "\<And>g. joiner_call j ks (PyList [[]]) (Generator g) = []"
    and e_app: "\<And>xs ys. e (xs @ ys) = e xs @ e ys"
  shows "creator_ok ks L \<Longrightarrow> creator_ok ks R \<Longrightarrow> \<forall>l\<in>set (pending L). wf_row l \<Longrightarrow>
     \<forall>l\<in>set (pending L). \<forall>r\<in>set (pending R).
        comparable_rows ks l r \<and> key_tuple ks l \<noteq> key_tuple ks r \<Longrightarrow>
     \<exists>out L1 R1. Join_both j ks L R = Inr (out, L1, R1) \<and> creator_ok ks L1 \<and> creator_ok ks R1
        \<and> (\<forall>l\<in>set (pending L1). wf_row l) \<and> out @ e (pending L1) = e (pending L)"
proof (induction "length (pending L) + length (pending R)" arbitrary: L R rule: less_induct)
  case less
  show ?case
  proof (cases "truthy (first_group_element L) \<and> truthy (first_group_element R)")
    case False
    then have "Join_both j ks L R = Inr ([], L, R)"
      by (subst Join_both.simps) (simp only: if_False)
    with less.prems show ?thesis by simp
  next
    case True
    then obtain fl fr where fl: "first_group_element L = Some fl"
      and fr: "first_group_element R = Some fr"
      by (auto simp: truthy_def split: option.splits)
    from fl fr have mem: "fl \<in> set (pending L)" "fr \<in> set (pending R)"
      by (simp_all add: pending_def)
    from less.prems(1) fl have kl: "key_values ks fl = Inr (group_key_values L)"
      by (simp add: creator_ok_def)
    from less.prems(2) fr have kr: "key_values ks fr = Inr (group_key_values R)"
      by (simp add: creator_ok_def)
    from less.prems(4) mem have cmp: "comparable_rows ks fl fr"
      and ne: "key_tuple ks fl \<noteq> key_tuple ks fr" by auto
    from ne have "group_key_values L \<noteq> group_key_values R"
      using key_values_tuple [OF kl] key_values_tuple [OF kr] by auto
    with compare_key_values_same_kind [OF key_values_comparable [OF cmp kl kr]]
    obtain a b where ab: "compare_key_values (group_key_values L) (group_key_values R) = Inr (a, b)"
      and diff: "a \<noteq> b" by blast
    show ?thesis
    proof (cases "a > b")
      case gt: True
      from take_group_split [OF less.prems(2) fr] obtain g R1 where
        tg: "take_group R = Inr (g, R1)" and ok1: "creator_ok ks R1"
        and split: "g @ pending R1 = pending R"
        and shorter: "length (pending R1) < length (pending R)"
        by blast
      from split have sub: "set (pending R1) \<subseteq> set (pending R)"
        by (metis Un_upper2 set_append)
      have inv: "\<forall>l\<in>set (pending L). \<forall>r\<in>set (pending R1).
          comparable_rows ks l r \<and> key_tuple ks l \<noteq> key_tuple ks r"
        using less.prems(4) sub by blast
      from shorter have m: "length (pending L) + length (pending R1)
          < length (pending L) + length (pending R)" by simp
      from less.hyps [OF m less.prems(1) ok1 less.prems(3) inv]
      obtain out L2 R2 where rec: "Join_both j ks L R1 = Inr (out, L2, R2)"
        and res: "creator_ok ks L2" "creator_ok ks R2" "\<forall>l\<in>set (pending L2). wf_row l"
          "out @ e (pending L2) = e (pending L)"
        by blast
      have "Join_both j ks L R = Inr (out, L2, R2)"
        using True ab diff gt tg rec by (subst Join_both.simps) (simp add: right_only)
      with res show ?thesis by blast
    next
      case ngt: False
      from take_group_split [OF less.prems(1) fl] obtain g L1 where
        tg: "take_group L = Inr (g, L1)" and ok1: "creator_ok ks L1"
        and split: "g @ pending L1 = pending L"
        and shorter: "length (pending L1) < length (pending L)"
        by blast
      from split have sets: "set (pending L) = set g \<union> set (pending L1)"
        by (metis set_append)
      from sets less.prems(3) have wfg: "\<forall>r\<in>set g. wf_row r"
        and wf1: "\<forall>l\<in>set (pending L1). wf_row l" by auto
      have inv: "\<forall>l\<in>set (pending L1). \<forall>r\<in>set (pending R).
          comparable_rows ks l r \<and> key_tuple ks l \<noteq> key_tuple ks r"
        using less.prems(4) sets by blast
      from shorter have m: "length (pending L1) + length (pending R)
          < length (pending L) + length (pending R)" by simp
      from less.hyps [OF m ok1 less.prems(2) wf1 inv]
      obtain out L2 R2 where rec: "Join_both j ks L1 R = Inr (out, L2, R2)"
        and res: "creator_ok ks L2" "creator_ok ks R2" "\<forall>l\<in>set (pending L2). wf_row l"
        and out: "out @ e (pending L2) = e (pending L1)"
        by blast
      have call: "Join_both j ks L R = Inr (e g @ out, L2, R2)"
        using True ab diff ngt tg rec by (subst Join_both.simps) (simp add: left_only [OF wfg])
      have "(e g @ out) @ e (pending L2) = e (pending L)"
        using out e_app [of g "pending L1"] split by simp
      with call res show ?thesis by blast
    qed
  qed
qed

lemma Join_left_rest_all:
  assumes left_only:
      "\<And>g. \<forall>r\<in>set g. wf_row r \<Longrightarrow> joiner_call j ks (Generator g) (PyList [[]]) = e g"
    and e_app: "\<And>xs ys. e (xs @ ys) = e xs @ e ys"
  shows "creator_ok ks L \<Longrightarrow> \<forall>l\<in>set (pending L). wf_row l \<Longrightarrow>
     Join_left_rest j ks L = Inr (e (pending L))"
proof (induction "length (pending L)" arbitrary: L rule: less_induct)
  case less
  show ?case
  proof (cases "first_group_element L")
    case None
    from e_app [of "[]" "[]"] have "e [] = []" by simp
    with None show ?thesis
      by (subst Join_left_rest.simps) (simp add: pending_def)
  next
    case (Some f)
    from take_group_split [OF less.prems(1) Some] obtain g L1 where
      tg: "take_group L = Inr (g, L1)" and ok1: "creator_ok ks L1"
      and split: "g @ pending L1 = pending L"
      and shorter: "length (pending L1) < length (pending L)"
      by blast
    from split have sets: "set (pending L) = set g \<union> set (pending L1)"
      by (metis set_append)
    from sets less.prems(2) have wfg: "\<forall>r\<in>set g. wf_row r"
      and wf1: "\<forall>l\<in>set (pending L1). wf_row l" by auto
    from less.hyps [OF shorter ok1 wf1]
    have rec: "Join_left_rest j ks L1 = Inr (e (pending L1))" .
    have "Join_left_rest j ks L = Inr (e g @ e (pending L1))"
      using Some tg rec by (subst Join_left_rest.simps) (simp add: left_only [OF wfg])
    then show ?thesis using e_app [of g "pending L1"] split by simp
  qed
qed

lemma Join_right_rest_none:
  assumes right_only: "\<And>g. joiner_call j ks (PyList [[]]) (Generator g) = []"
  shows "creator_ok ks R \<Longrightarrow> Join_right_rest j ks R = Inr []"
proof (induction "length (pending R)" arbitrary: R rule: less_induct)
  case less
  show ?case
  proof (cases "first_group_element R")
    case None
    then show ?thesis by (subst Join_right_rest.simps) simp
  next
    case (Some f)
    from take_group_split [OF less.prems Some] obtain g R1 where
      tg: "take_group R = Inr (g, R1)" and ok1: "creator_ok ks R1"
      and shorter: "length (pending R1) < length (pending R)"
      by blast
    from less.hyps [OF shorter ok1] have rec: "Join_right_rest j ks R1 = Inr []" .
    show ?thesis
      using Some tg rec by (subst Join_right_rest.simps) (simp add: right_only)
  qed
qed

lemma Join_call_no_match:
  assumes left_only:
      "\<And>g. \<forall>r\<in>set g. wf_row r \<Longrightarrow> joiner_call j ks (Generator g) (PyList [[]]) = e g"
    and right_only: "\<And>g. joiner_call j ks (PyList [[]]) (Generator g) = []"
    and e_app: "\<And>xs ys. e (xs @ ys) = e xs @ e ys"
    and left: "\<forall>l\<in>set rows. has_keys ks l \<and> wf_row l"
    and right: "\<forall>r\<in>set arg0. has_keys ks r"
    and cmp: "\<forall>l\<in>set rows. \<forall>r\<in>set arg0. comparable_rows ks l r"
    and disjoint: "key_tuple ks ` set rows \<inter> key_tuple ks ` set arg0 = {}"
  shows "Join_call j ks rows arg0 = Inr (e rows)"
proof -
  from left GroupsCreator_ok [of rows ks] obtain L where
    L: "GroupsCreator rows ks = Inr L" "creator_ok ks L" "pending L = rows" by blast
  from right GroupsCreator_ok [of arg0 ks] obtain R where
    R: "GroupsCreator arg0 ks = Inr R" "creator_ok ks R" "pending R = arg0" by blast
  have wf: "\<forall>l\<in>set (pending L). wf_row l" using left L(3) by simp
  have inv: "\<forall>l\<in>set (pending L). \<forall>r\<in>set (pending R).
      comparable_rows ks l r \<and> key_tuple ks l \<noteq> key_tuple ks r"
    using cmp disjoint L(3) R(3) by blast
  from Join_both_no_match [of j ks e, OF left_only right_only e_app L(2) R(2) wf inv]
  obtain out L1 R1 where both: "Join_both j ks L R = Inr (out, L1, R1)"
    and ok: "creator_ok ks L1" "creator_ok ks R1" "\<forall>l\<in>set (pending L1). wf_row l"
    and out: "out @ e (pending L1) = e (pending L)"
    by blast
  have l: "Join_left_rest j ks L1 = Inr (e (pending L1))"
    using Join_left_rest_all [of j ks e, OF left_only e_app ok(1) ok(3)] .
  have r: "Join_right_rest j ks R1 = Inr []"
    using Join_right_rest_none [of j ks, OF right_only ok(2)] .
  show ?thesis
    using L(1,3) R(1) both l r out by (simp add: Join_call_def)
qed

text \<open>
  Claim C8, as the code has it. Two streams whose rows have the key columns, whose key
  columns hold integers or strings, of one kind in each key column on both sides so that
  Python orders every key tuple of the left against every one of the right, and which
  have no key tuple in common: the inner join emits no row, and the left join emits the
  rows of the left stream, each merged with the row without columns and so unchanged, in
  their order. The left rows are dictionaries, their column names distinct. The streams
  need not even be sorted for this.
\<close>

theorem join_without_common_keys:
  assumes "\<forall>l\<in>set rows. has_keys ks l \<and> wf_row l"
    and "\<forall>r\<in>set arg0. has_keys ks r"
    and "\<forall>l\<in>set rows. \<forall>r\<in>set arg0. comparable_rows ks l r"
    and "key_tuple ks ` set rows \<inter> key_tuple ks ` set arg0 = {}"
  shows "Join_call (InnerJoiner sa sb) ks rows arg0 = Inr []
       \<and> Join_call (LeftJoiner sa sb) ks rows arg0 = Inr rows"
proof
  show "Join_call (InnerJoiner sa sb) ks rows arg0 = Inr []"
  proof (rule Join_call_no_match [where e = "\<lambda>g. []"])
    show "joiner_call (InnerJoiner sa sb) ks (Generator g) (PyList [[]]) = []" for g
      by (rule InnerJoiner_left_only)
    show "joiner_call (InnerJoiner sa sb) ks (PyList [[]]) (Generator g) = []" for g
      by (rule InnerJoiner_right_only)
  qed (use assms in simp_all)
  show "Join_call (LeftJoiner sa sb) ks rows arg0 = Inr rows"
  proof (rule Join_call_no_match [where e = "\<lambda>g. g"])
    show "joiner_call (LeftJoiner sa sb) ks (Generator g) (PyList [[]]) = g"
      if "\<forall>r\<in>set g. wf_row r" for g
      using that by (rule LeftJoiner_left_only)
    show "joiner_call (LeftJoiner sa sb) ks (PyList [[]]) (Generator g) = []" for g
      by (rule LeftJoiner_right_only)
  qed (use assms in simp_all)
qed

theorem join_without_common_keys_witness:
  "Join_call (InnerJoiner ''_1'' ''_2'') [''k'']
     [[(''k'', IntV 1), (''a'', StrV ''x'')], [(''k'', IntV 3), (''a'', StrV ''y'')]]
     [[(''k'', IntV 2), (''b'', StrV ''p'')]] = Inr []
   \<and> Join_call (LeftJoiner ''_1'' ''_2'') [''k'']
     [[(''k'', IntV 1), (''a'', StrV ''x'')], [(''k'', IntV 3), (''a'', StrV ''y'')]]
     [[(''k'', IntV 2), (''b'', StrV ''p'')]]
     = Inr [[(''k'', IntV 1), (''a'', StrV ''x'')], [(''k'', IntV 3), (''a'', StrV ''y'')]]"
proof -
  let ?rows = "[[(''k'', IntV 1), (''a'', StrV ''x'')], [(''k'', IntV 3), (''a'', StrV ''y'')]]"
  let ?arg0 = "[[(''k'', IntV 2), (''b'', StrV ''p'')]]"
  have h1: "\<forall>l\<in>set ?rows. has_keys [''k''] l \<and> wf_row l"
    by (simp add: has_keys_def wf_row_def)
  have h2: "\<forall>r\<in>set ?arg0. has_keys [''k''] r"
    by (simp add: has_keys_def)
  have h3: "\<forall>l\<in>set ?rows. \<forall>r\<in>set ?arg0. comparable_rows [''k''] l r"
    by (simp add: comparable_rows_def)
  have h4: "key_tuple [''k''] ` set ?rows \<inter> key_tuple [''k''] ` set ?arg0 = {}"
    by (simp add: key_tuple_def)
  from join_without_common_keys [OF h1 h2 h3 h4, of "''_1''" "''_2''"]
  show ?thesis .
qed

text \<open>
  Without an order between the key values of the two sides the claim fails. Each of the
  two streams below is sorted on \<open>k\<close> and their key tuples differ, but Python does not
  order the integer 1 against the string \<open>a\<close>: \<^verbatim>\<open>compare_key_values\<close> raises
  \<open>TypeError\<close>, and neither the inner nor the left join emits what the claim says.
\<close>

theorem join_of_keys_without_common_order:
  "Join_call (InnerJoiner ''_1'' ''_2'') [''k''] [[(''k'', IntV 1)]] [[(''k'', StrV ''a'')]]
     = Inl TypeError
   \<and> Join_call (LeftJoiner ''_1'' ''_2'') [''k''] [[(''k'', IntV 1)]] [[(''k'', StrV ''a'')]]
     = Inl TypeError
   \<and> key_tuple [''k''] [(''k'', IntV 1)] \<noteq> key_tuple [''k''] [(''k'', StrV ''a'')]"
  by (simp add: join_eval_defs key_tuple_def)

section \<open>The row merge\<close>












end
